theory Spec2Isabelle
  imports Complex_Main "HOL-Library.AList"
begin

section \<open>Text: Python strings, whitespace and the two regular expressions\<close>

text \<open>
  A Python \<open>str\<close> is modelled as a \<^typ>\<open>string\<close> whose characters are the code points
  below 256. On that range \<open>str.isspace\<close>, \<open>str.strip()\<close> and the regular expression
  class \<open>\s\<close> agree on the twelve characters listed in \<open>is_space\<close>, and \<open>\d\<close> matches
  exactly the ASCII digits.
\<close>

definition is_space :: "char \<Rightarrow> bool" where
  "is_space c \<longleftrightarrow>
     c \<in> {CHR 0x09, CHR 0x0A, CHR 0x0B, CHR 0x0C, CHR 0x0D,
          CHR 0x1C, CHR 0x1D, CHR 0x1E, CHR 0x1F, CHR 0x20, CHR 0x85, CHR 0xA0}"

definition is_digit :: "char \<Rightarrow> bool" where
  "is_digit c \<longleftrightarrow> c \<in> set ''0123456789''"

text \<open>\<open>str.strip()\<close>: whitespace removed at both ends.\<close>

definition strip :: "string \<Rightarrow> string" where
  "strip s = rev (dropWhile is_space (rev (dropWhile is_space s)))"

text \<open>
  \<open>re.sub(r"\s+", " ", text)\<close>: every maximal run of whitespace is replaced by one
  space, everything else is copied.
\<close>

function collapse_ws :: "string \<Rightarrow> string" where
  "collapse_ws [] = []"
| "collapse_ws (c # cs) =
     (if is_space c then CHR '' '' # collapse_ws (dropWhile is_space cs)
      else c # collapse_ws cs)"
  by pat_completeness auto
termination
  by (relation "measure length") (auto simp: less_Suc_eq_le length_dropWhile_le)

text \<open>Python truthiness of an optional string, and \<open>x or d\<close> on strings.\<close>

definition py_or :: "string \<Rightarrow> string \<Rightarrow> string" where
  "py_or x d = (if x = [] then d else x)"

text \<open>
  \<open>clean_text\<close> (lines 34-38). The repair function \<open>fix_text\<close> of the ftfy library is
  not part of the repository; it is the parameter \<open>ft\<close> everywhere.
\<close>

definition clean_text :: "(string \<Rightarrow> string) \<Rightarrow> string option \<Rightarrow> string" where
  "clean_text ft text =
     (case text of
        None \<Rightarrow> []
      | Some t \<Rightarrow> if t = [] then [] else ft (strip (collapse_ws t)))"

section \<open>Floats: parsing a digit token and formatting with \<open>,.2f\<close>\<close>

text \<open>
  The only floats the spider ever builds come from \<open>float\<close> applied to a token of digits
  and dots, so they are non-negative doubles or \<open>inf\<close>. A finite double is represented by
  its exact rational value.
\<close>

datatype pyfloat = Finite rat | Inf

datatype py_error = ValueError

definition round_half_even :: "rat \<Rightarrow> int" where
  "round_half_even q =
     (let f = \<lfloor>q\<rfloor>; r = q - of_int f
      in if r < 1 / 2 then f else if 1 / 2 < r then f + 1
         else if even f then f else f + 1)"

function bit_length :: "int \<Rightarrow> int" where
  "bit_length n = (if n \<le> 0 then 0 else 1 + bit_length (n div 2))"
  by pat_completeness auto
termination
  by (relation "measure nat") auto

definition pow2 :: "int \<Rightarrow> rat" where
  "pow2 e = (if 0 \<le> e then of_int (2 ^ nat e) else 1 / of_int (2 ^ nat (- e)))"

text \<open>\<open>floor_log2 q\<close> is the binary exponent of a positive rational.\<close>

definition floor_log2 :: "rat \<Rightarrow> int" where
  "floor_log2 q =
     (let (a, b) = quotient_of q;
          d = bit_length a - bit_length b
      in if pow2 d \<le> q then d else d - 1)"

text \<open>
  Round-to-nearest-even into binary64, for a non-negative rational: a 53 bit
  significand, least exponent \<open>-1074\<close>, and \<open>inf\<close> once the rounded value reaches
  \<open>2^1024\<close> (the exponent is 1024 or more, or it is 1023 and the significand rounds up to
  \<open>2^53\<close>).
\<close>

definition to_double :: "rat \<Rightarrow> pyfloat" where
  "to_double q =
     (if q \<le> 0 then Finite 0
      else let e = floor_log2 q
           in if 1024 \<le> e then Inf
              else let ee = max (e - 52) (- 1074);
                       m = round_half_even (q / pow2 ee)
                   in if e = 1023 \<and> m = 9007199254740992 then Inf
                      else Finite (of_int m * pow2 ee))"

definition digit_val :: "char \<Rightarrow> int" where
  "digit_val c = of_char c - 48"

text \<open>The integer a string of decimal digits denotes.\<close>

definition dec_int :: "string \<Rightarrow> int" where
  "dec_int ds = foldl (\<lambda>n c. 10 * n + digit_val c) 0 ds"

text \<open>
  \<open>float(num_str)\<close> on the strings that reach it: characters from \<open>[0-9.]\<close> only (the
  match of \<open>[\d\.,]+\<close> without its commas). Python accepts such a string exactly when it
  has at most one dot and at least one digit, and raises \<open>ValueError\<close> otherwise.
\<close>

definition py_float :: "string \<Rightarrow> py_error + pyfloat" where
  "py_float s =
     (let ip = takeWhile is_digit s; rest = dropWhile is_digit s
      in case rest of
           [] \<Rightarrow> if ip = [] then Inl ValueError else Inr (to_double (of_int (dec_int ip)))
         | c # fp \<Rightarrow>
             if c = CHR ''.'' \<and> list_all is_digit fp \<and> (ip \<noteq> [] \<or> fp \<noteq> [])
             then Inr (to_double (of_int (dec_int (ip @ fp)) / of_int (10 ^ length fp)))
             else Inl ValueError)"

definition digit_char :: "int \<Rightarrow> char" where
  "digit_char d = ''0123456789'' ! nat (d mod 10)"

function digits_of :: "int \<Rightarrow> string" where
  "digits_of n = (if n < 10 then [digit_char n] else digits_of (n div 10) @ [digit_char n])"
  by pat_completeness auto
termination
  by (relation "measure nat") auto

text \<open>Thousands separators, on the reversed digit string.\<close>

fun commas_rev :: "string \<Rightarrow> string" where
  "commas_rev (a # b # c # d # ds) = a # b # c # CHR '','' # commas_rev (d # ds)"
| "commas_rev ds = ds"

definition group3 :: "string \<Rightarrow> string" where
  "group3 ds = rev (commas_rev (rev ds))"

text \<open>\<open>f"{num:,.2f}"\<close>: correctly rounded to two places (ties to even), \<open>inf\<close> as is.\<close>

definition format_2f :: "pyfloat \<Rightarrow> string" where
  "format_2f x =
     (case x of
        Inf \<Rightarrow> ''inf''
      | Finite v \<Rightarrow>
          (let cents = round_half_even (v * 100)
           in group3 (digits_of (cents div 100)) @ ''.'' @
              [digit_char (cents mod 100 div 10), digit_char (cents mod 10)]))"

section \<open>\<open>parse_price\<close>\<close>

text \<open>
  A price fragment is the \<open>SelectorList\<close> returned by
  \<open>product.css("span.woocommerce-Price-amount.amount")\<close>. Of each selected element the
  spider reads three things: the text nodes of its currency-symbol spans
  (\<open>css("span.woocommerce-Price-currencySymbol::text")\<close>), its own text nodes
  (\<open>xpath("text()")\<close>) and its serialisation (\<open>get()\<close>).
\<close>

record price_elem =
  symbol_texts :: "string list"
  text_nodes :: "string list"
  outer_html :: string

type_synonym price_block = "price_elem list"

text \<open>\<open>SelectorList.get(default=d)\<close>: the first result, or the default.\<close>

definition get_default :: "'a \<Rightarrow> 'a list \<Rightarrow> 'a" where
  "get_default d xs = (case xs of [] \<Rightarrow> d | x # _ \<Rightarrow> x)"

text \<open>\<open>" ".join(xs)\<close>\<close>

fun join_space :: "string list \<Rightarrow> string" where
  "join_space [] = []"
| "join_space [x] = x"
| "join_space (x # y # ys) = x @ CHR '' '' # join_space (y # ys)"

text \<open>Line 45 and 48: the scraped glyph, or the configured symbol; never used afterwards.\<close>

definition scraped_currency :: "(string \<Rightarrow> string) \<Rightarrow> string \<Rightarrow> price_block \<Rightarrow> string" where
  "scraped_currency ft cs blk =
     ft (py_or (strip (get_default [] (concat (map symbol_texts blk)))) cs)"

text \<open>Lines 46, 47 and 49: the amount text that the number search runs on.\<close>

definition amount_text :: "(string \<Rightarrow> string) \<Rightarrow> price_block \<Rightarrow> string" where
  "amount_text ft blk =
     ft (py_or (py_or (strip (join_space (concat (map text_nodes blk))))
                      (get_default [] (map outer_html blk))) [])"

definition in_number_class :: "char \<Rightarrow> bool" where
  "in_number_class c \<longleftrightarrow> is_digit c \<or> c = CHR ''.'' \<or> c = CHR '',''"

text \<open>
  \<open>re.search(r"[\d\.,]+", amount_text)\<close>: the leftmost match of a greedy character
  class is the maximal run that starts at the first character of the class.
\<close>

definition search_number :: "string \<Rightarrow> string option" where
  "search_number s =
     (case dropWhile (\<lambda>c. \<not> in_number_class c) s of
        [] \<Rightarrow> None
      | c # cs \<Rightarrow> Some (takeWhile in_number_class (c # cs)))"

definition remove_commas :: "string \<Rightarrow> string" where
  "remove_commas s = filter (\<lambda>c. c \<noteq> CHR '','') s"

definition parse_price ::
  "(string \<Rightarrow> string) \<Rightarrow> string \<Rightarrow> price_block \<Rightarrow> string \<times> pyfloat option" where
  "parse_price ft cs blk =
     (if blk = [] then (''N/A'', None)
      else
        let currency = scraped_currency ft cs blk;
            amount = amount_text ft blk
        in case search_number amount of
             None \<Rightarrow> (''N/A'', None)
           | Some m \<Rightarrow>
               (case py_float (remove_commas m) of
                  Inl e \<Rightarrow> (''N/A'', None)
                | Inr num \<Rightarrow> (cs @ format_2f num, Some num)))"

section \<open>\<open>parse_price\<close> on Unicode text\<close>

text \<open>
  The amount text of a page may hold any Unicode character. In this section a text is
  the list of its code points. Both \<open>\d\<close> (line 51) and \<open>float\<close> (line 57) recognise a
  digit by the decimal property of the Unicode database and read it by its decimal
  value. The database belongs to the interpreter; it is the parameter \<open>dec\<close> here, with
  \<open>dec c\<close> the decimal value of the code point \<open>c\<close> if it has one. Every version of the
  database gives the ASCII digits their values and none to the comma and the full stop,
  which is all that \<open>decimal_table_ok\<close> asks.
\<close>

type_synonym ustring = "nat list"

text \<open>The code points of a text of the first 256 characters.\<close>

definition ustr :: "string \<Rightarrow> ustring" where
  "ustr s = map of_char s"

definition decimal_table_ok :: "(nat \<Rightarrow> nat option) \<Rightarrow> bool" where
  "decimal_table_ok dec \<longleftrightarrow>
     dec 48 = Some 0 \<and> dec 49 = Some 1 \<and> dec 50 = Some 2 \<and> dec 51 = Some 3 \<and>
     dec 52 = Some 4 \<and> dec 53 = Some 5 \<and> dec 54 = Some 6 \<and> dec 55 = Some 7 \<and>
     dec 56 = Some 8 \<and> dec 57 = Some 9 \<and> dec 44 = None \<and> dec 46 = None"

text \<open>\<open>str.isspace\<close> on all of Unicode.\<close>

definition is_uspace :: "nat \<Rightarrow> bool" where
  "is_uspace c \<longleftrightarrow>
     c \<in> {0x09, 0x0A, 0x0B, 0x0C, 0x0D, 0x1C, 0x1D, 0x1E, 0x1F, 0x20, 0x85, 0xA0,
          0x1680, 0x2028, 0x2029, 0x202F, 0x205F, 0x3000}
     \<or> (0x2000 \<le> c \<and> c \<le> 0x200A)"

definition ustrip :: "ustring \<Rightarrow> ustring" where
  "ustrip s = rev (dropWhile is_uspace (rev (dropWhile is_uspace s)))"

fun ujoin_space :: "ustring list \<Rightarrow> ustring" where
  "ujoin_space [] = []"
| "ujoin_space [x] = x"
| "ujoin_space (x # y # ys) = x @ 0x20 # ujoin_space (y # ys)"

definition upy_or :: "ustring \<Rightarrow> ustring \<Rightarrow> ustring" where
  "upy_or x d = (if x = [] then d else x)"

record uprice_elem =
  usymbol_texts :: "ustring list"
  utext_nodes :: "ustring list"
  uouter_html :: ustring

type_synonym uprice_block = "uprice_elem list"

definition uscraped_currency :: "(ustring \<Rightarrow> ustring) \<Rightarrow> ustring \<Rightarrow> uprice_block \<Rightarrow> ustring" where
  "uscraped_currency ft cs blk =
     ft (upy_or (ustrip (get_default [] (concat (map usymbol_texts blk)))) cs)"

definition uamount_text :: "(ustring \<Rightarrow> ustring) \<Rightarrow> uprice_block \<Rightarrow> ustring" where
  "uamount_text ft blk =
     ft (upy_or (upy_or (ustrip (ujoin_space (concat (map utext_nodes blk))))
                        (get_default [] (map uouter_html blk))) [])"

definition is_udigit :: "(nat \<Rightarrow> nat option) \<Rightarrow> nat \<Rightarrow> bool" where
  "is_udigit dec c \<longleftrightarrow> dec c \<noteq> None"

text \<open>The class \<open>[\d\.,]\<close>: a decimal digit, the full stop (46) or the comma (44).\<close>

definition in_unumber_class :: "(nat \<Rightarrow> nat option) \<Rightarrow> nat \<Rightarrow> bool" where
  "in_unumber_class dec c \<longleftrightarrow> is_udigit dec c \<or> c = 46 \<or> c = 44"

definition usearch_number :: "(nat \<Rightarrow> nat option) \<Rightarrow> ustring \<Rightarrow> ustring option" where
  "usearch_number dec s =
     (case dropWhile (\<lambda>c. \<not> in_unumber_class dec c) s of
        [] \<Rightarrow> None
      | c # cs \<Rightarrow> Some (takeWhile (in_unumber_class dec) (c # cs)))"

definition uremove_commas :: "ustring \<Rightarrow> ustring" where
  "uremove_commas s = filter (\<lambda>c. c \<noteq> 44) s"

definition udigit_val :: "(nat \<Rightarrow> nat option) \<Rightarrow> nat \<Rightarrow> int" where
  "udigit_val dec c = (case dec c of None \<Rightarrow> 0 | Some v \<Rightarrow> int v)"

definition udec_int :: "(nat \<Rightarrow> nat option) \<Rightarrow> ustring \<Rightarrow> int" where
  "udec_int dec ds = foldl (\<lambda>n c. 10 * n + udigit_val dec c) 0 ds"

text \<open>
  \<open>float(num_str)\<close> on a string of decimal digits and full stops: every digit counts by
  its decimal value, whatever its script.
\<close>

definition upy_float :: "(nat \<Rightarrow> nat option) \<Rightarrow> ustring \<Rightarrow> py_error + pyfloat" where
  "upy_float dec s =
     (let ip = takeWhile (is_udigit dec) s; rest = dropWhile (is_udigit dec) s
      in case rest of
           [] \<Rightarrow> if ip = [] then Inl ValueError else Inr (to_double (of_int (udec_int dec ip)))
         | c # fp \<Rightarrow>
             if c = 46 \<and> list_all (is_udigit dec) fp \<and> (ip \<noteq> [] \<or> fp \<noteq> [])
             then Inr (to_double (of_int (udec_int dec (ip @ fp)) / of_int (10 ^ length fp)))
             else Inl ValueError)"

text \<open>\<open>parse_price\<close> (lines 40-62) on such text.\<close>

definition parse_price_unicode ::
  "(nat \<Rightarrow> nat option) \<Rightarrow> (ustring \<Rightarrow> ustring) \<Rightarrow> ustring \<Rightarrow> uprice_block \<Rightarrow>
   ustring \<times> pyfloat option" where
  "parse_price_unicode dec ft cs blk =
     (if blk = [] then (ustr ''N/A'', None)
      else
        let currency = uscraped_currency ft cs blk;
            amount = uamount_text ft blk
        in case usearch_number dec amount of
             None \<Rightarrow> (ustr ''N/A'', None)
           | Some m \<Rightarrow>
               (case upy_float dec (uremove_commas m) of
                  Inl e \<Rightarrow> (ustr ''N/A'', None)
                | Inr num \<Rightarrow> (cs @ ustr (format_2f num), Some num)))"

text \<open>A token that \<open>float\<close> accepts once its commas are gone.\<close>

definition valid_float_token :: "(nat \<Rightarrow> nat option) \<Rightarrow> ustring \<Rightarrow> bool" where
  "valid_float_token dec m \<longleftrightarrow>
     list_ex (is_udigit dec) m \<and> length (filter (\<lambda>c. c = 46) m) \<le> 1"

text \<open>
  The Latin-1 fragment of the other sections as Unicode text, and a small table for
  examples: the ASCII digits and the Arabic-Indic digits U+0660 to U+0669.
\<close>

definition widen :: "price_elem \<Rightarrow> uprice_elem" where
  "widen e =
     \<lparr>usymbol_texts = map ustr (symbol_texts e), utext_nodes = map ustr (text_nodes e),
      uouter_html = ustr (outer_html e)\<rparr>"

definition example_decimal :: "nat \<Rightarrow> nat option" where
  "example_decimal c =
     (if 48 \<le> c \<and> c \<le> 57 then Some (c - 48)
      else if 1632 \<le> c \<and> c \<le> 1641 then Some (c - 1632)
      else None)"

section \<open>Pages, the spider and the crawl\<close>

record product =
  title_texts :: "string list"
  price_block :: price_block
  image_srcs :: "string list"

record page =
  products :: "product list"
  next_hrefs :: "string list"

record raw_item =
  Name :: string
  PriceDisplay :: string
  PriceNumeric :: "pyfloat option"
  Image :: string

text \<open>
  \<open>self.items\<close> is an \<open>OrderedDict\<close>: an association list in insertion order, written
  only by \<open>AList.update\<close> (a new key is appended, an old one keeps its place).
\<close>

record spider =
  items :: "(nat \<times> raw_item) list"
  seq :: nat
  currency_symbol :: string
  csv_file :: string
  xlsx_file :: string

definition init_spider :: "string \<Rightarrow> spider" where
  "init_spider today =
     \<lparr>items = [], seq = 0, currency_symbol = ''$'',
      csv_file = ''pokemon_'' @ today @ ''.csv'',
      xlsx_file = ''pokemon_'' @ today @ ''.xlsx''\<rparr>"

text \<open>The record built for one product (lines 74-84).\<close>

definition make_record :: "(string \<Rightarrow> string) \<Rightarrow> string \<Rightarrow> product \<Rightarrow> raw_item" where
  "make_record ft cs p =
     (let name = clean_text ft (Some (get_default [] (title_texts p)));
          (price_display, price_num) = parse_price ft cs (price_block p);
          image = clean_text ft (Some (get_default [] (image_srcs p)))
      in \<lparr>Name = py_or name [],
          PriceDisplay = (if price_display \<noteq> [] then price_display else []),
          PriceNumeric = price_num,
          Image = py_or image []\<rparr>)"

text \<open>One turn of the loop of \<open>parse\<close> (lines 70-86).\<close>

definition extract_product :: "(string \<Rightarrow> string) \<Rightarrow> spider \<Rightarrow> product \<Rightarrow> spider" where
  "extract_product ft s p =
     (let n = seq s + 1;
          record = make_record ft (currency_symbol s) p
      in s\<lparr>seq := n, items := AList.update n record (items s)\<rparr>)"

text \<open>Lines 89-90: the first next-link, followed only when it is a non-empty string.\<close>

definition next_page :: "page \<Rightarrow> string option" where
  "next_page pg =
     (case next_hrefs pg of
        [] \<Rightarrow> None
      | h # _ \<Rightarrow> if h = [] then None else Some h)"

text \<open>
  \<open>parse\<close>: all products of the page in document order, then the request for the next
  page, if any.
\<close>

definition parse :: "(string \<Rightarrow> string) \<Rightarrow> spider \<Rightarrow> page \<Rightarrow> spider \<times> string option" where
  "parse ft s pg = (foldl (extract_product ft) s (products pg), next_page pg)"

text \<open>
  The crawl is sequential (\<open>CONCURRENT_REQUESTS = 1\<close>): the list holds the responses in
  the order the engine delivers them, and the crawl ends at the first page without a next
  link or when no further response arrives.
\<close>

fun crawl :: "(string \<Rightarrow> string) \<Rightarrow> spider \<Rightarrow> page list \<Rightarrow> spider" where
  "crawl ft s [] = s"
| "crawl ft s (pg # rest) =
     (case parse ft s pg of
        (s', None) \<Rightarrow> s'
      | (s', Some href) \<Rightarrow> crawl ft s' rest)"

section \<open>\<open>closed\<close>: deduplication, filtering and the two exports\<close>

record cleaned_row =
  row_Name :: string
  row_Price :: string
  row_PriceNumeric :: "pyfloat option"
  row_Image :: string

text \<open>Lines 107-110.\<close>

definition clean_item :: "(string \<Rightarrow> string) \<Rightarrow> raw_item \<Rightarrow> cleaned_row" where
  "clean_item ft it =
     \<lparr>row_Name = py_or (clean_text ft (Some (Name it))) ''N/A'',
      row_Price = py_or (PriceDisplay it) ''N/A'',
      row_PriceNumeric = PriceNumeric it,
      row_Image = py_or (clean_text ft (Some (Image it))) ''N/A''\<rparr>"

definition row_tuple :: "cleaned_row \<Rightarrow> string \<times> string \<times> string" where
  "row_tuple r = (row_Name r, row_Price r, row_Image r)"

text \<open>The loop of lines 105-122, with its two accumulators \<open>seen\<close> and \<open>cleaned\<close>.\<close>

fun dedup_loop ::
  "(string \<Rightarrow> string) \<Rightarrow> raw_item list \<Rightarrow> (string \<times> string \<times> string) set \<Rightarrow>
   cleaned_row list \<Rightarrow> cleaned_row list" where
  "dedup_loop ft [] seen cleaned = cleaned"
| "dedup_loop ft (it # its) seen cleaned =
     (let r = clean_item ft it
      in if row_tuple r \<in> seen then dedup_loop ft its seen cleaned
         else dedup_loop ft its (insert (row_tuple r) seen) (cleaned @ [r]))"

definition is_blank :: "string \<Rightarrow> bool" where
  "is_blank v \<longleftrightarrow> v = ''N/A'' \<or> v = []"

text \<open>Lines 125-128.\<close>

definition all_blank :: "cleaned_row \<Rightarrow> bool" where
  "all_blank r \<longleftrightarrow> list_all is_blank [row_Name r, row_Price r, row_Image r]"

text \<open>The rows both exports are written from (lines 102-131).\<close>

definition finalize :: "(string \<Rightarrow> string) \<Rightarrow> (nat \<times> raw_item) list \<Rightarrow> cleaned_row list" where
  "finalize ft its = filter (\<lambda>r. \<not> all_blank r) (dedup_loop ft (map snd its) {} [])"

subsection \<open>The delimited file\<close>

text \<open>The dictionary handed to \<open>writer.writerow\<close> (lines 143-147), as a triple.\<close>

definition csv_row :: "cleaned_row \<Rightarrow> string \<times> string \<times> string" where
  "csv_row r = (py_or (row_Name r) ''N/A'', py_or (row_Price r) ''N/A'', py_or (row_Image r) ''N/A'')"

text \<open>\<open>csv.QUOTE_ALL\<close> with the default dialect: quotes doubled, lines end in CR LF.\<close>

definition csv_quote :: "string \<Rightarrow> string" where
  "csv_quote f = CHR 0x22 # concat (map (\<lambda>c. if c = CHR 0x22 then [c, c] else [c]) f) @ [CHR 0x22]"

definition csv_line :: "string \<times> string \<times> string \<Rightarrow> string" where
  "csv_line t =
     (case t of (a, b, c) \<Rightarrow>
        csv_quote a @ '','' @ csv_quote b @ '','' @ csv_quote c @ [CHR 0x0D, CHR 0x0A])"

definition csv_text :: "cleaned_row list \<Rightarrow> string" where
  "csv_text rows = csv_line (''Name'', ''Price'', ''Image'') @ concat (map (csv_line \<circ> csv_row) rows)"

text \<open>\<open>encoding="utf-8-sig"\<close>: the byte order mark, then UTF-8 of each code point.\<close>

definition utf8_char :: "char \<Rightarrow> nat list" where
  "utf8_char c =
     (let n = (of_char c :: nat)
      in if n < 128 then [n] else [192 + n div 64, 128 + n mod 64])"

definition utf8_sig :: "string \<Rightarrow> nat list" where
  "utf8_sig t = [239, 187, 191] @ concat (map utf8_char t)"

subsection \<open>The spreadsheet\<close>

datatype cell_value = Text string | Number pyfloat

record cell =
  cvalue :: cell_value
  number_format :: string
  na_font :: bool
  alt_fill :: bool

record sheet_row =
  cell_name :: cell
  cell_price :: cell
  cell_img :: cell

text \<open>A text cell as lines 175-180 and 193-198 style it.\<close>

definition text_cell :: "nat \<Rightarrow> string \<Rightarrow> cell" where
  "text_cell r_idx v =
     \<lparr>cvalue = Text v, number_format = ''General'',
      na_font = (v = ''N/A''), alt_fill = (r_idx mod 2 = 0)\<rparr>"

text \<open>Lines 182-191.\<close>

definition price_cell :: "string \<Rightarrow> nat \<Rightarrow> pyfloat option \<Rightarrow> cell" where
  "price_cell cs r_idx pn =
     (case pn of
        Some n \<Rightarrow> \<lparr>cvalue = Number n, number_format = cs @ ''#,##0.00'',
                   na_font = False, alt_fill = (r_idx mod 2 = 0)\<rparr>
      | None \<Rightarrow> \<lparr>cvalue = Text ''N/A'', number_format = ''General'',
                 na_font = True, alt_fill = (r_idx mod 2 = 0)\<rparr>)"

definition xlsx_row :: "string \<Rightarrow> nat \<times> cleaned_row \<Rightarrow> sheet_row" where
  "xlsx_row cs p =
     (case p of (r_idx, r) \<Rightarrow>
        \<lparr>cell_name = text_cell r_idx (py_or (row_Name r) ''N/A''),
         cell_price = price_cell cs r_idx (row_PriceNumeric r),
         cell_img = text_cell r_idx (py_or (row_Image r) ''N/A'')\<rparr>)"

text \<open>
  The text of a price-column cell as the spider itself renders it when it measures the
  column (line 205): a number under the currency format, any other value as it is.
\<close>

definition cell_text :: "string \<Rightarrow> cell \<Rightarrow> string" where
  "cell_text cs c = (case cvalue c of Number v \<Rightarrow> cs @ format_2f v | Text t \<Rightarrow> t)"

record worksheet =
  header :: "string list"
  data_rows :: "sheet_row list"
  meta_row :: nat
  meta_timestamp :: string

definition build_sheet :: "string \<Rightarrow> string \<Rightarrow> cleaned_row list \<Rightarrow> worksheet" where
  "build_sheet cs now filtered =
     \<lparr>header = [''Name'', ''Price'', ''Image''],
      data_rows = map (xlsx_row cs) (enumerate 2 filtered),
      meta_row = length filtered + 3,
      meta_timestamp = now\<rparr>"

datatype file_content = CsvBytes "nat list" | Workbook worksheet

text \<open>
  \<open>closed\<close>: both files are removed if present and written anew, so each path ends up
  holding exactly what this run wrote. \<open>reason\<close> only reaches the log.
\<close>

definition closed ::
  "(string \<Rightarrow> string) \<Rightarrow> spider \<Rightarrow> string \<Rightarrow> string \<Rightarrow> (string \<rightharpoonup> file_content) \<Rightarrow>
   (string \<rightharpoonup> file_content)" where
  "closed ft s reason now fs =
     (let filtered = finalize ft (items s)
      in fs(csv_file s \<mapsto> CsvBytes (utf8_sig (csv_text filtered)),
            xlsx_file s \<mapsto> Workbook (build_sheet (currency_symbol s) now filtered)))"

text \<open>A whole run: a fresh spider, the crawl, then \<open>closed\<close>.\<close>

definition run ::
  "(string \<Rightarrow> string) \<Rightarrow> string \<Rightarrow> string \<Rightarrow> string \<Rightarrow> (string \<rightharpoonup> file_content) \<Rightarrow>
   page list \<Rightarrow> (string \<rightharpoonup> file_content)" where
  "run ft today reason now fs pages =
     closed ft (crawl ft (init_spider today) pages) reason now fs"

section \<open>Notions used to state the properties\<close>

text \<open>The pages a crawl actually parses, and their products in crawl order.\<close>

fun visited :: "page list \<Rightarrow> page list" where
  "visited [] = []"
| "visited (pg # rest) = pg # (case next_page pg of None \<Rightarrow> [] | Some href \<Rightarrow> visited rest)"

definition crawled_products :: "page list \<Rightarrow> product list" where
  "crawled_products pages = concat (map products (visited pages))"

text \<open>Position \<open>i\<close> holds the first occurrence of its key.\<close>

definition first_at :: "'k list \<Rightarrow> nat \<Rightarrow> bool" where
  "first_at ks i \<longleftrightarrow> (\<forall>j<i. ks ! j \<noteq> ks ! i)"

definition first_positions :: "'k list \<Rightarrow> nat list" where
  "first_positions ks = filter (first_at ks) [0 ..< length ks]"

text \<open>The dedup key of a raw item: its triple after normalization.\<close>

definition dedup_key :: "(string \<Rightarrow> string) \<Rightarrow> raw_item \<Rightarrow> string \<times> string \<times> string" where
  "dedup_key ft it = row_tuple (clean_item ft it)"

text \<open>What a spreadsheet row shows, cell by cell.\<close>

definition shown_row :: "string \<Rightarrow> sheet_row \<Rightarrow> string \<times> string \<times> string" where
  "shown_row cs x = (cell_text cs (cell_name x), cell_text cs (cell_price x), cell_text cs (cell_img x))"

text \<open>A triple of display fields none of which is a real value.\<close>

definition blank_triple :: "string \<times> string \<times> string \<Rightarrow> bool" where
  "blank_triple t \<longleftrightarrow> (case t of (a, b, c) \<Rightarrow> is_blank a \<and> is_blank b \<and> is_blank c)"

text \<open>
  The positions of the accumulated items that survive: first occurrences of their key
  whose normalized triple is not blank.
\<close>

definition kept_positions :: "(string \<Rightarrow> string) \<Rightarrow> (nat \<times> raw_item) list \<Rightarrow> nat list" where
  "kept_positions ft its =
     filter (\<lambda>i. \<not> blank_triple (dedup_key ft (snd (its ! i))))
       (first_positions (map (dedup_key ft \<circ> snd) its))"

text \<open>The display string and the number of an item agree, under currency symbol \<open>cs\<close>.\<close>

definition price_consistent :: "string \<Rightarrow> raw_item \<Rightarrow> bool" where
  "price_consistent cs it \<longleftrightarrow>
     PriceDisplay it = (case PriceNumeric it of None \<Rightarrow> ''N/A'' | Some n \<Rightarrow> cs @ format_2f n)"

subsection \<open>A small crawl\<close>

text \<open>
  The end-to-end scenario of the specification, with one product without any content
  added to the second page: Bulbasaur and Ivysaur (which has no price) on page one,
  Bulbasaur again on page two.
\<close>

definition example_product :: "string \<Rightarrow> string list \<Rightarrow> string \<Rightarrow> product" where
  "example_product name amounts img =
     \<lparr>title_texts = [name],
      price_block = map (\<lambda>a. \<lparr>symbol_texts = [[CHR 0xA3]], text_nodes = [a], outer_html = []\<rparr>) amounts,
      image_srcs = [img]\<rparr>"

definition example_pages :: "page list" where
  "example_pages =
     [\<lparr>products = [example_product ''Bulbasaur'' [''63.00''] ''img1.png'',
                   example_product ''Ivysaur'' [] ''img2.png''],
       next_hrefs = [''/shop/page/2/'']\<rparr>,
      \<lparr>products = [example_product ''Bulbasaur'' [''63.00''] ''img1.png'',
                   \<lparr>title_texts = [], price_block = [], image_srcs = []\<rparr>],
       next_hrefs = []\<rparr>]"

definition example_items :: "(nat \<times> raw_item) list" where
  "example_items =
     [(1, \<lparr>Name = ''Bulbasaur'', PriceDisplay = ''$63.00'', PriceNumeric = Some (Finite 63),
           Image = ''img1.png''\<rparr>),
      (2, \<lparr>Name = ''Ivysaur'', PriceDisplay = ''N/A'', PriceNumeric = None, Image = ''img2.png''\<rparr>),
      (3, \<lparr>Name = ''Bulbasaur'', PriceDisplay = ''$63.00'', PriceNumeric = Some (Finite 63),
           Image = ''img1.png''\<rparr>),
      (4, \<lparr>Name = [], PriceDisplay = ''N/A'', PriceNumeric = None, Image = []\<rparr>)]"

subsection \<open>What a spreadsheet application shows\<close>






subsection \<open>The number pattern in the words of the specification\<close>

text \<open>
  The specification describes the search as the first match of
  \<open>\d+(,\d+)*(\.\d+)?\<close>. Such a match starts at the first digit; each part is greedy
  and the rest of the pattern can always still match, so nothing is given back.
\<close>

function spec_comma_groups :: "string \<Rightarrow> string" where
  "spec_comma_groups s =
     (case s of
        c # d # r \<Rightarrow>
          if c = CHR '','' \<and> is_digit d
          then c # takeWhile is_digit (d # r) @ spec_comma_groups (dropWhile is_digit (d # r))
          else []
      | _ \<Rightarrow> [])"
  by pat_completeness auto
termination
  by (relation "measure length") (auto simp: less_Suc_eq_le le_SucI length_dropWhile_le)

definition spec_fraction :: "string \<Rightarrow> string" where
  "spec_fraction s =
     (case s of
        c # d # r \<Rightarrow> if c = CHR ''.'' \<and> is_digit d then c # takeWhile is_digit (d # r) else []
      | _ \<Rightarrow> [])"

definition spec_number_match :: "string \<Rightarrow> string option" where
  "spec_number_match s =
     (case dropWhile (\<lambda>c. \<not> is_digit c) s of
        [] \<Rightarrow> None
      | c # cs \<Rightarrow>
          (let ds = takeWhile is_digit (c # cs);
               r1 = dropWhile is_digit (c # cs);
               gs = spec_comma_groups r1;
               r2 = drop (length gs) r1
           in Some (ds @ gs @ spec_fraction r2)))"

text \<open>
  The specification's reading of \<open>parse_price\<close>: whenever the amount text has a match of
  that pattern, the result is the float of the first match and its display string.
\<close>

definition spec_parse_price_claim :: "(string \<Rightarrow> string) \<Rightarrow> string \<Rightarrow> price_block \<Rightarrow> bool" where
  "spec_parse_price_claim ft cs blk \<longleftrightarrow>
     (case spec_number_match (amount_text ft blk) of
        None \<Rightarrow> True
      | Some m \<Rightarrow>
          (case py_float (remove_commas m) of
             Inl e \<Rightarrow> False
           | Inr num \<Rightarrow> parse_price ft cs blk = (cs @ format_2f num, Some num)))"

subsection \<open>One step of the text repair\<close>

text \<open>
  \<open>fix_text\<close> runs, among its default steps, \<open>remove_control_chars\<close>, which deletes the
  ASCII control characters U+0000 to U+0008, U+000B, U+000E to U+001F and U+007F. On
  ASCII text without \<open>&\<close>, escape sequences, carriage returns or quotes no other step of
  \<open>fix_text\<close> changes anything, so there \<open>fix_text\<close> is this function.
\<close>

definition is_control_char :: "char \<Rightarrow> bool" where
  "is_control_char c \<longleftrightarrow>
     (let n = (of_char c :: nat)
      in n \<le> 8 \<or> n = 11 \<or> (14 \<le> n \<and> n \<le> 31) \<or> n = 127)"

definition remove_control_chars :: "string \<Rightarrow> string" where
  "remove_control_chars s = filter (\<lambda>c. \<not> is_control_char c) s"

text \<open>No two adjacent whitespace characters, none at either end.\<close>

fun no_space_run :: "string \<Rightarrow> bool" where
  "no_space_run (a # b # cs) \<longleftrightarrow> \<not> (is_space a \<and> is_space b) \<and> no_space_run (b # cs)"
| "no_space_run cs \<longleftrightarrow> True"

definition whitespace_normal :: "string \<Rightarrow> bool" where
  "whitespace_normal s \<longleftrightarrow>
     no_space_run s \<and>
     (case s of [] \<Rightarrow> True | c # cs \<Rightarrow> \<not> is_space c \<and> \<not> is_space (last s))"

section \<open>Properties of \<open>parse_price\<close>\<close>

lemma digit_char_is_digit: "is_digit (digit_char d)"
  unfolding is_digit_def digit_char_def
  by (rule nth_mem) simp

lemma is_digit_not_A: "is_digit c \<Longrightarrow> c \<noteq> CHR ''A''"
  by (auto simp: is_digit_def)

lemma format_2f_last: "format_2f x \<noteq> [] \<and> last (format_2f x) \<noteq> CHR ''A''"
proof (cases x)
  case (Finite v)
  then show ?thesis
    by (simp add: format_2f_def Let_def is_digit_not_A [OF digit_char_is_digit])
next
  case Inf
  then show ?thesis by (simp add: format_2f_def)
qed

lemma display_not_sentinel: "cs @ format_2f x \<noteq> ''N/A''"
proof
  assume a: "cs @ format_2f x = ''N/A''"
  have "last (cs @ format_2f x) = last (format_2f x)"
    using format_2f_last [of x] by simp
  with a format_2f_last [of x] show False by simp
qed

lemma parse_price_cases:
  "parse_price ft cs blk =
     (if blk = [] then (''N/A'', None)
      else case search_number (amount_text ft blk) of
             None \<Rightarrow> (''N/A'', None)
           | Some m \<Rightarrow> (case py_float (remove_commas m) of
                          Inl e \<Rightarrow> (''N/A'', None)
                        | Inr num \<Rightarrow> (cs @ format_2f num, Some num)))"
  by (simp add: parse_price_def Let_def)

lemma py_float_no_digit:
  assumes "\<not> list_ex is_digit s"
  shows "py_float s = Inl ValueError"
proof -
  from assms have nd: "\<forall>c \<in> set s. \<not> is_digit c" by (simp add: list_ex_iff)
  then have tw: "takeWhile is_digit s = []" and dw: "dropWhile is_digit s = s"
    by (cases s; simp)+
  show ?thesis
  proof (cases s)
    case Nil
    then show ?thesis by (simp add: py_float_def)
  next
    case (Cons c fp)
    with nd have "fp \<noteq> [] \<longrightarrow> \<not> list_all is_digit fp"
      by (cases fp) auto
    with Cons tw dw show ?thesis
      by (auto simp: py_float_def Let_def)
  qed
qed

lemma list_ex_remove_commas: "list_ex is_digit (remove_commas m) = list_ex is_digit m"
  by (induction m) (auto simp: remove_commas_def is_digit_def)

lemma format_2f_example: "format_2f (Finite (2469 / 2)) = ''1,234.50''"
  by code_simp

text \<open>
  C1, as the specification words it, fails: the amount text \<open>Rs. 500\<close> contains the match
  \<open>500\<close> of the decimal-number pattern, whose float is \<open>500.0\<close>, but the search of the
  code stops at the full stop before it and \<open>parse_price\<close> answers with the sentinel pair.
\<close>

theorem parse_price_spec_pattern_counterexample:
  "spec_number_match
     (amount_text (\<lambda>t. t) [\<lparr>symbol_texts = [], text_nodes = [''Rs. 500''], outer_html = []\<rparr>])
     = Some ''500''
   \<and> py_float (remove_commas ''500'') = Inr (Finite 500)
   \<and> search_number
       (amount_text (\<lambda>t. t) [\<lparr>symbol_texts = [], text_nodes = [''Rs. 500''], outer_html = []\<rparr>])
     = Some ''.''
   \<and> parse_price (\<lambda>t. t) ''$'' [\<lparr>symbol_texts = [], text_nodes = [''Rs. 500''], outer_html = []\<rparr>]
     = (''N/A'', None)
   \<and> \<not> spec_parse_price_claim (\<lambda>t. t) ''$''
         [\<lparr>symbol_texts = [], text_nodes = [''Rs. 500''], outer_html = []\<rparr>]"
  by code_simp

text \<open>
  C2. \<open>parse_price\<close> returns the pair \<open>("N/A", None)\<close> exactly when the fragment is empty,
  when the amount text has no match of the number search, or when \<open>float\<close> rejects the
  matched token; and the numeric result is present exactly when the display string is
  not the sentinel.
\<close>

theorem parse_price_sentinel_iff:
  "(parse_price ft cs blk = (''N/A'', None) \<longleftrightarrow>
      blk = [] \<or> search_number (amount_text ft blk) = None \<or>
      (\<exists>m e. search_number (amount_text ft blk) = Some m \<and> py_float (remove_commas m) = Inl e))
   \<and> (snd (parse_price ft cs blk) \<noteq> None \<longleftrightarrow> fst (parse_price ft cs blk) \<noteq> ''N/A'')"
  by (auto simp: parse_price_cases display_not_sentinel split: option.splits sum.splits)

theorem parse_price_sentinel_iff_witness:
  "parse_price (\<lambda>t. t) ''$'' [\<lparr>symbol_texts = [], text_nodes = [''sold out''], outer_html = []\<rparr>]
     = (''N/A'', None)
   \<and> search_number
        (amount_text (\<lambda>t. t) [\<lparr>symbol_texts = [], text_nodes = [''sold out''], outer_html = []\<rparr>])
      = None
   \<and> snd (parse_price (\<lambda>t. t) ''$'' [\<lparr>symbol_texts = [], text_nodes = [''63.00''], outer_html = []\<rparr>])
      \<noteq> None"
proof -
  have "search_number
        (amount_text (\<lambda>t. t) [\<lparr>symbol_texts = [], text_nodes = [''sold out''], outer_html = []\<rparr>])
      = None"
    by code_simp
  moreover have "fst (parse_price (\<lambda>t. t) ''$''
      [\<lparr>symbol_texts = [], text_nodes = [''63.00''], outer_html = []\<rparr>]) \<noteq> ''N/A''"
    by code_simp
  ultimately show ?thesis
    using parse_price_sentinel_iff
        [of "\<lambda>t. t" "''$''" "[\<lparr>symbol_texts = [], text_nodes = [''sold out''], outer_html = []\<rparr>]"]
      parse_price_sentinel_iff
        [of "\<lambda>t. t" "''$''" "[\<lparr>symbol_texts = [], text_nodes = [''63.00''], outer_html = []\<rparr>]"]
    by blast
qed

text \<open>
  C9. On a non-empty fragment every path of \<open>parse_price\<close> returns: a token made of
  separators only (such as \<open>,\<close> or \<open>.\<close>) makes \<open>float\<close> raise \<open>ValueError\<close>, every failure
  of \<open>float\<close> is caught and turned into the sentinel pair, and otherwise the result is a
  display string with its number.
\<close>

theorem parse_price_float_failure_caught:
  assumes "blk \<noteq> []" and "search_number (amount_text ft blk) = Some m"
  shows "(\<not> list_ex is_digit m \<longrightarrow> py_float (remove_commas m) = Inl ValueError)
       \<and> (\<forall>e. py_float (remove_commas m) = Inl e \<longrightarrow> parse_price ft cs blk = (''N/A'', None))
       \<and> (parse_price ft cs blk = (''N/A'', None) \<or>
          (\<exists>num. parse_price ft cs blk = (cs @ format_2f num, Some num)))"
  using assms
  by (auto simp: parse_price_cases py_float_no_digit list_ex_remove_commas split: sum.splits)

theorem parse_price_float_failure_caught_witness:
  "[\<lparr>symbol_texts = [''$''], text_nodes = ['',''], outer_html = []\<rparr>] \<noteq> []
   \<and> search_number
        (amount_text (\<lambda>t. t) [\<lparr>symbol_texts = [''$''], text_nodes = ['',''], outer_html = []\<rparr>])
      = Some '',''
   \<and> \<not> list_ex is_digit '',''
   \<and> py_float (remove_commas '','') = Inl ValueError
   \<and> parse_price (\<lambda>t. t) ''$'' [\<lparr>symbol_texts = [''$''], text_nodes = ['',''], outer_html = []\<rparr>]
      = (''N/A'', None)"
proof -
  have a: "search_number
        (amount_text (\<lambda>t. t) [\<lparr>symbol_texts = [''$''], text_nodes = ['',''], outer_html = []\<rparr>])
      = Some '',''"
    by code_simp
  have b: "\<not> list_ex is_digit '',''"
    by (simp add: is_digit_def)
  show ?thesis
    using a b parse_price_float_failure_caught
      [of "[\<lparr>symbol_texts = [''$''], text_nodes = ['',''], outer_html = []\<rparr>]" "\<lambda>t. t" "'',''"]
    by simp
qed

section \<open>Properties of \<open>parse_price\<close> on Unicode text\<close>

lemma parse_price_unicode_cases:
  "parse_price_unicode dec ft cs blk =
     (if blk = [] then (ustr ''N/A'', None)
      else case usearch_number dec (uamount_text ft blk) of
             None \<Rightarrow> (ustr ''N/A'', None)
           | Some m \<Rightarrow> (case upy_float dec (uremove_commas m) of
                          Inl e \<Rightarrow> (ustr ''N/A'', None)
                        | Inr num \<Rightarrow> (cs @ ustr (format_2f num), Some num)))"
  by (simp add: parse_price_unicode_def Let_def)

lemma usearch_number_class:
  assumes "usearch_number dec a = Some m"
  shows "m \<noteq> [] \<and> list_all (in_unumber_class dec) m"
proof -
  from assms obtain c cs where d: "dropWhile (\<lambda>c. \<not> in_unumber_class dec c) a = c # cs"
    and m: "m = takeWhile (in_unumber_class dec) (c # cs)"
    by (auto simp: usearch_number_def split: list.splits)
  from d have "in_unumber_class dec c"
    using hd_dropWhile [of "\<lambda>c. \<not> in_unumber_class dec c" a] by simp
  with m show ?thesis
    by (auto simp: list_all_iff dest: set_takeWhileD)
qed

lemma uremove_commas_class:
  "list_all (in_unumber_class dec) m \<Longrightarrow>
   list_all (\<lambda>c. is_udigit dec c \<or> c = 46) (uremove_commas m)"
  by (induction m) (auto simp: uremove_commas_def in_unumber_class_def)

lemma dots_uremove_commas:
  "filter (\<lambda>c. c = 46) (uremove_commas m) = filter (\<lambda>c. c = 46) m"
  by (induction m) (auto simp: uremove_commas_def)

lemma list_ex_uremove_commas:
  "dec 44 = None \<Longrightarrow> list_ex (is_udigit dec) (uremove_commas m) = list_ex (is_udigit dec) m"
  by (induction m) (auto simp: uremove_commas_def is_udigit_def)

lemma filter_dot_udigits:
  "dec 46 = None \<Longrightarrow> list_all (is_udigit dec) s \<Longrightarrow> filter (\<lambda>c. c = 46) s = []"
  by (induction s) (auto simp: is_udigit_def)

lemma upy_float_ok_iff:
  assumes dot: "dec 46 = None"
    and cl: "list_all (\<lambda>c. is_udigit dec c \<or> c = 46) s"
  shows "(\<exists>x. upy_float dec s = Inr x) \<longleftrightarrow>
         list_ex (is_udigit dec) s \<and> length (filter (\<lambda>c. c = 46) s) \<le> 1"
proof -
  define ip where "ip = takeWhile (is_udigit dec) s"
  define rest where "rest = dropWhile (is_udigit dec) s"
  have s: "s = ip @ rest" by (simp add: ip_def rest_def)
  have ipd: "list_all (is_udigit dec) ip"
    by (auto simp: ip_def list_all_iff dest: set_takeWhileD)
  have pf: "upy_float dec s =
     (case rest of
        [] \<Rightarrow> if ip = [] then Inl ValueError else Inr (to_double (of_int (udec_int dec ip)))
      | c # fp \<Rightarrow>
          if c = 46 \<and> list_all (is_udigit dec) fp \<and> (ip \<noteq> [] \<or> fp \<noteq> [])
          then Inr (to_double (of_int (udec_int dec (ip @ fp)) / of_int (10 ^ length fp)))
          else Inl ValueError)"
    unfolding upy_float_def Let_def ip_def rest_def ..
  show ?thesis
  proof (cases rest)
    case Nil
    with s ipd have "list_ex (is_udigit dec) s \<longleftrightarrow> ip \<noteq> []"
      by (cases ip) auto
    moreover from Nil s ipd dot have "filter (\<lambda>c. c = 46) s = []"
      by (simp add: filter_dot_udigits)
    moreover from Nil pf have "(\<exists>x. upy_float dec s = Inr x) \<longleftrightarrow> ip \<noteq> []"
      by simp
    ultimately show ?thesis by simp
  next
    case (Cons c fp)
    have "\<not> is_udigit dec c"
      using Cons unfolding rest_def by (metis hd_dropWhile list.sel(1) list.distinct(1))
    moreover have "is_udigit dec c \<or> c = 46"
      using cl s Cons by (simp add: list_all_iff)
    ultimately have c: "c = 46" by blast
    have fpcl: "list_all (\<lambda>c. is_udigit dec c \<or> c = 46) fp"
      using cl s Cons by (simp add: list_all_iff)
    have dots: "length (filter (\<lambda>c. c = 46) s) = Suc (length (filter (\<lambda>c. c = 46) fp))"
      using s Cons c ipd dot by (simp add: filter_dot_udigits)
    have fp_iff: "list_all (is_udigit dec) fp \<longleftrightarrow> filter (\<lambda>c. c = 46) fp = []"
      using fpcl dot by (induction fp) (auto simp: is_udigit_def)
    have ex: "list_ex (is_udigit dec) s \<longleftrightarrow> ip \<noteq> [] \<or> list_ex (is_udigit dec) fp"
      using s Cons c ipd dot by (cases ip) (auto simp: is_udigit_def)
    have fpne: "list_all (is_udigit dec) fp \<Longrightarrow> (list_ex (is_udigit dec) fp \<longleftrightarrow> fp \<noteq> [])"
      by (cases fp) auto
    have "(\<exists>x. upy_float dec s = Inr x) \<longleftrightarrow>
        list_all (is_udigit dec) fp \<and> (ip \<noteq> [] \<or> fp \<noteq> [])"
      using Cons c pf by simp
    with dots fp_iff ex fpne show ?thesis by auto
  qed
qed

lemma token_float_iff:
  assumes "decimal_table_ok dec" and "usearch_number dec a = Some m"
  shows "(\<exists>x. upy_float dec (uremove_commas m) = Inr x) \<longleftrightarrow> valid_float_token dec m"
proof -
  from assms(1) have dot: "dec 46 = None" and comma: "dec 44 = None"
    by (simp_all add: decimal_table_ok_def)
  have "list_all (in_unumber_class dec) m"
    using usearch_number_class [OF assms(2)] by simp
  then have "list_all (\<lambda>c. is_udigit dec c \<or> c = 46) (uremove_commas m)"
    by (rule uremove_commas_class)
  from upy_float_ok_iff [where dec = dec, OF dot this] show ?thesis
    unfolding valid_float_token_def
    by (simp only: list_ex_uremove_commas [where dec = dec, OF comma] dots_uremove_commas)
qed

lemma uamount_text_symbol_update:
  "uamount_text ft (map (usymbol_texts_update g) blk) = uamount_text ft blk"
  by (simp add: uamount_text_def comp_def)

lemma ustr_example: "ustr ''1,234.50'' = [49, 44, 50, 51, 52, 46, 53, 48]"
  by (simp add: ustr_def)

lemma to_double_example: "to_double (2469 / 2) = Finite (2469 / 2)"
  by code_simp

lemma usearch_number_example:
  assumes "decimal_table_ok dec"
  shows "usearch_number dec (ustr ''1,234.50'') = Some (ustr ''1,234.50'')"
  using assms
  by (simp add: ustr_example usearch_number_def in_unumber_class_def is_udigit_def
      decimal_table_ok_def)

lemma upy_float_example:
  assumes "decimal_table_ok dec"
  shows "upy_float dec (uremove_commas (ustr ''1,234.50'')) = Inr (Finite (2469 / 2))"
proof -
  have "uremove_commas (ustr ''1,234.50'') = [49, 50, 51, 52, 46, 53, 48]"
    by (simp add: ustr_example uremove_commas_def)
  moreover have "upy_float dec [49, 50, 51, 52, 46, 53, 48] = Inr (to_double (2469 / 2))"
    using assms
    by (simp add: upy_float_def is_udigit_def udec_int_def udigit_val_def decimal_table_ok_def)
  ultimately show ?thesis
    by (simp add: to_double_example)
qed

subsection \<open>An amount in Arabic-Indic digits\<close>

lemma example_decimal_ok: "decimal_table_ok example_decimal"
  by (simp add: decimal_table_ok_def example_decimal_def)

lemma example_decimal_latin1: "\<forall>c<256. example_decimal c \<noteq> None \<longrightarrow> 48 \<le> c \<and> c \<le> 57"
  by (simp add: example_decimal_def)

lemma uamount_text_arabic:
  "uamount_text id [\<lparr>usymbol_texts = [], utext_nodes = [[1635, 32, 53]], uouter_html = []\<rparr>] =
     [1635, 32, 53]"
  by (simp add: uamount_text_def ustrip_def is_uspace_def upy_or_def)

lemma usearch_number_arabic: "usearch_number example_decimal [1635, 32, 53] = Some [1635]"
  by (simp add: usearch_number_def in_unumber_class_def is_udigit_def example_decimal_def)

lemma valid_float_token_arabic: "valid_float_token example_decimal [1635]"
  by (simp add: valid_float_token_def is_udigit_def example_decimal_def)

lemma to_double_3: "to_double 3 = Finite 3"
  by code_simp

lemma upy_float_arabic: "upy_float example_decimal (uremove_commas [1635]) = Inr (Finite 3)"
  by (simp add: uremove_commas_def upy_float_def is_udigit_def udec_int_def udigit_val_def
      example_decimal_def to_double_3)

lemma format_2f_3: "format_2f (Finite 3) = ''3.00''"
  by code_simp

lemma uamount_text_ascii:
  "uamount_text id [\<lparr>usymbol_texts = [[36]], utext_nodes = [ustr ''1,234.50''], uouter_html = []\<rparr>] =
     ustr ''1,234.50''"
  by (simp add: uamount_text_def ustrip_def is_uspace_def upy_or_def ustr_def)

subsection \<open>The first token\<close>

text \<open>
  C1, as the code has it. For every non-empty price fragment, \<open>parse_price\<close> takes the
  first maximal run of decimal digits (of any script, as \<open>\d\<close> matches them), commas and
  full stops in the amount text and strips its commas; when the run has at least one
  digit and at most one full stop, the float of the remainder, each digit read by its
  decimal value, is the numeric result, and the display string is the configured
  currency symbol followed by that float with thousands separators and two decimals.
  In particular the amount text \<open>1,234.50\<close> yields \<open>1234.5\<close> and \<open>$1,234.50\<close>, and the
  currency glyphs of the fragment never influence the result. This holds for every
  table of decimal digits that gives the ASCII digits their values and none to the
  comma and the full stop.
\<close>

theorem parse_price_first_token:
  assumes "decimal_table_ok dec" and "blk \<noteq> []"
  shows "(\<forall>m. usearch_number dec (uamount_text ft blk) = Some m \<and> valid_float_token dec m \<longrightarrow>
            (\<exists>num. upy_float dec (uremove_commas m) = Inr num \<and>
                   parse_price_unicode dec ft cs blk = (cs @ ustr (format_2f num), Some num)))
       \<and> (uamount_text ft blk = ustr ''1,234.50'' \<longrightarrow>
            parse_price_unicode dec ft (ustr ''$'') blk =
              (ustr ''$1,234.50'', Some (Finite (2469 / 2))))
       \<and> parse_price_unicode dec ft cs (map (usymbol_texts_update g) blk) =
           parse_price_unicode dec ft cs blk"
proof (intro conjI allI impI)
  fix m
  assume a: "usearch_number dec (uamount_text ft blk) = Some m \<and> valid_float_token dec m"
  then obtain num where "upy_float dec (uremove_commas m) = Inr num"
    using token_float_iff [OF assms(1), of "uamount_text ft blk" m] by blast
  with a assms(2) show "\<exists>num. upy_float dec (uremove_commas m) = Inr num \<and>
      parse_price_unicode dec ft cs blk = (cs @ ustr (format_2f num), Some num)"
    by (simp add: parse_price_unicode_cases)
next
  assume "uamount_text ft blk = ustr ''1,234.50''"
  with assms(2) show "parse_price_unicode dec ft (ustr ''$'') blk =
      (ustr ''$1,234.50'', Some (Finite (2469 / 2)))"
    by (simp add: parse_price_unicode_cases usearch_number_example [OF assms(1)]
        upy_float_example [OF assms(1)] format_2f_example)
       (simp add: ustr_def)
next
  show "parse_price_unicode dec ft cs (map (usymbol_texts_update g) blk) =
      parse_price_unicode dec ft cs blk"
    by (simp add: parse_price_unicode_cases uamount_text_symbol_update)
qed

theorem parse_price_first_token_witness:
  "decimal_table_ok example_decimal
   \<and> usearch_number example_decimal
       (uamount_text id
          [\<lparr>usymbol_texts = [], utext_nodes = [[1635, 32, 53]], uouter_html = []\<rparr>]) = Some [1635]
   \<and> valid_float_token example_decimal [1635]
   \<and> parse_price_unicode example_decimal id (ustr ''$'')
       [\<lparr>usymbol_texts = [], utext_nodes = [[1635, 32, 53]], uouter_html = []\<rparr>] =
       (ustr ''$3.00'', Some (Finite 3))
   \<and> parse_price_unicode example_decimal id (ustr ''$'')
       [\<lparr>usymbol_texts = [[36]], utext_nodes = [ustr ''1,234.50''], uouter_html = []\<rparr>] =
       (ustr ''$1,234.50'', Some (Finite (2469 / 2)))"
proof -
  let ?a = "[\<lparr>usymbol_texts = [], utext_nodes = [[1635, 32, 53]], uouter_html = []\<rparr>]"
  let ?b = "[\<lparr>usymbol_texts = [[36]], utext_nodes = [ustr ''1,234.50''], uouter_html = []\<rparr>]"
  have s: "usearch_number example_decimal (uamount_text id ?a) = Some [1635]"
    by (simp only: uamount_text_arabic usearch_number_arabic)
  have "\<exists>num. upy_float example_decimal (uremove_commas [1635]) = Inr num \<and>
      parse_price_unicode example_decimal id (ustr ''$'') ?a =
        (ustr ''$'' @ ustr (format_2f num), Some num)"
    using parse_price_first_token [where dec = example_decimal and blk = ?a and ft = id
        and cs = "ustr ''$''", OF example_decimal_ok] s valid_float_token_arabic
    by blast
  then have a: "parse_price_unicode example_decimal id (ustr ''$'') ?a =
      (ustr ''$3.00'', Some (Finite 3))"
    by (auto simp: upy_float_arabic format_2f_3 ustr_def)
  have b: "parse_price_unicode example_decimal id (ustr ''$'') ?b =
      (ustr ''$1,234.50'', Some (Finite (2469 / 2)))"
    using parse_price_first_token [where dec = example_decimal and blk = ?b and ft = id,
        OF example_decimal_ok] uamount_text_ascii
    by blast
  from example_decimal_ok s valid_float_token_arabic a b show ?thesis
    by blast
qed

subsection \<open>The first 256 characters\<close>

text \<open>
  On text of the first 256 characters, where the only decimal digits are the ASCII
  ones, \<open>parse_price_unicode\<close> is \<open>parse_price\<close>.
\<close>

lemma char_eq_code: "c = d \<longleftrightarrow> (of_char c :: nat) = of_char d"
  by simp

lemma is_uspace_of_char: "is_uspace (of_char c) = is_space c"
proof -
  define n where "n = (of_char c :: nat)"
  have lt: "n < 256"
    by (simp add: n_def)
  have "is_space c \<longleftrightarrow> n \<in> {9, 10, 11, 12, 13, 28, 29, 30, 31, 32, 133, 160}"
    unfolding is_space_def n_def by (simp add: char_eq_code [of c])
  also have "\<dots> \<longleftrightarrow> is_uspace n"
    unfolding is_uspace_def using lt by auto
  finally show ?thesis
    by (simp add: n_def)
qed

lemma of_char_dot: "(of_char c :: nat) = 46 \<longleftrightarrow> c = CHR ''.''"
  by (simp add: char_eq_code [of c])

lemma of_char_comma: "(of_char c :: nat) = 44 \<longleftrightarrow> c = CHR '',''"
  by (simp add: char_eq_code [of c])

lemma is_digit_code:
  "is_digit c \<longleftrightarrow> (of_char c :: nat) \<in> {48, 49, 50, 51, 52, 53, 54, 55, 56, 57}"
  unfolding is_digit_def by (simp add: char_eq_code [of c])

lemma is_udigit_of_char:
  assumes "decimal_table_ok dec" and "\<forall>c<256. dec c \<noteq> None \<longrightarrow> 48 \<le> c \<and> c \<le> 57"
  shows "is_udigit dec (of_char c) = is_digit c"
proof -
  define n where "n = (of_char c :: nat)"
  have lt: "n < 256"
    by (simp add: n_def)
  have "dec n \<noteq> None" if "n \<in> {48, 49, 50, 51, 52, 53, 54, 55, 56, 57}"
    using that assms(1) by (auto simp: decimal_table_ok_def)
  moreover have "n \<in> {48, 49, 50, 51, 52, 53, 54, 55, 56, 57}" if "dec n \<noteq> None"
  proof -
    from that lt assms(2) have "48 \<le> n \<and> n \<le> 57" by blast
    then show ?thesis
      by (simp only: insert_iff empty_iff) arith
  qed
  ultimately show ?thesis
    unfolding is_udigit_def is_digit_code n_def [symmetric] by blast
qed

lemma udigit_val_of_char:
  assumes "decimal_table_ok dec" and "is_digit c"
  shows "udigit_val dec (of_char c) = digit_val c"
proof -
  define n where "n = (of_char c :: nat)"
  have "n \<in> {48, 49, 50, 51, 52, 53, 54, 55, 56, 57}"
    using assms(2) by (simp only: is_digit_code n_def)
  then have "(case dec n of None \<Rightarrow> 0 | Some v \<Rightarrow> int v) = int n - 48"
    using assms(1) by (auto simp: decimal_table_ok_def)
  then show ?thesis
    by (simp add: udigit_val_def digit_val_def n_def of_nat_of_char)
qed

lemma ustr_simps:
  "ustr [] = []"
  "ustr (c # cs) = of_char c # ustr cs"
  "ustr (xs @ ys) = ustr xs @ ustr ys"
  "ustr xs = [] \<longleftrightarrow> xs = []"
  "length (ustr xs) = length xs"
  by (simp_all add: ustr_def)

lemma ustrip_ustr: "ustrip (ustr s) = ustr (strip s)"
  by (simp add: ustrip_def strip_def ustr_def rev_map dropWhile_map comp_def is_uspace_of_char)

lemma ujoin_space_ustr: "ujoin_space (map ustr xs) = ustr (join_space xs)"
  by (induction xs rule: join_space.induct) (simp_all add: ustr_def)

lemma upy_or_ustr: "upy_or (ustr a) (ustr b) = ustr (py_or a b)"
  by (simp add: upy_or_def py_or_def ustr_def)

lemma get_default_ustr: "get_default [] (map ustr xs) = ustr (get_default [] xs)"
  by (cases xs) (simp_all add: get_default_def ustr_def)

lemma uamount_text_widen:
  assumes "\<And>s. ftu (ustr s) = ustr (ft s)"
  shows "uamount_text ftu (map widen blk) = ustr (amount_text ft blk)"
proof -
  have nodes: "concat (map utext_nodes (map widen blk)) = map ustr (concat (map text_nodes blk))"
    by (induction blk) (simp_all add: widen_def)
  have html: "map uouter_html (map widen blk) = map ustr (map outer_html blk)"
    by (simp add: widen_def comp_def)
  have nil: "[] = ustr []"
    by (simp add: ustr_def)
  show ?thesis
    unfolding uamount_text_def amount_text_def nodes html
    by (subst nil) (simp only: ujoin_space_ustr ustrip_ustr get_default_ustr upy_or_ustr assms)
qed

lemma usearch_number_ustr:
  assumes "decimal_table_ok dec" and "\<forall>c<256. dec c \<noteq> None \<longrightarrow> 48 \<le> c \<and> c \<le> 57"
  shows "usearch_number dec (ustr s) = map_option ustr (search_number s)"
proof -
  have cls: "in_unumber_class dec (of_char c) = in_number_class c" for c
    by (simp add: in_unumber_class_def in_number_class_def is_udigit_of_char [OF assms]
        of_char_dot of_char_comma)
  have dw: "dropWhile (\<lambda>c. \<not> in_unumber_class dec c) (ustr s) =
      ustr (dropWhile (\<lambda>c. \<not> in_number_class c) s)"
    by (simp add: ustr_def dropWhile_map comp_def cls)
  have tw: "takeWhile (in_unumber_class dec) (ustr t) = ustr (takeWhile in_number_class t)" for t
    by (simp add: ustr_def takeWhile_map comp_def cls)
  show ?thesis
  proof (cases "dropWhile (\<lambda>c. \<not> in_number_class c) s")
    case Nil
    show ?thesis
      unfolding usearch_number_def search_number_def dw Nil
      by (simp only: ustr_simps list.case option.map)
  next
    case (Cons a l)
    have "takeWhile (in_unumber_class dec) (of_char a # ustr l) =
        ustr (takeWhile in_number_class (a # l))"
      using tw [of "a # l"] by (simp only: ustr_simps)
    then show ?thesis
      unfolding usearch_number_def search_number_def dw Cons
      by (simp only: ustr_simps list.case option.map)
  qed
qed

lemma uremove_commas_ustr: "uremove_commas (ustr m) = ustr (remove_commas m)"
  by (simp add: uremove_commas_def remove_commas_def ustr_def filter_map comp_def of_char_comma)

lemma udec_int_ustr:
  assumes "decimal_table_ok dec" and "list_all is_digit ds"
  shows "udec_int dec (ustr ds) = dec_int ds"
proof -
  have "foldl (\<lambda>n c. 10 * n + udigit_val dec c) a (map of_char ds) =
      foldl (\<lambda>n c. 10 * n + digit_val c) a ds" for a
    using assms(2)
    by (induction ds arbitrary: a) (simp_all add: udigit_val_of_char [OF assms(1)])
  then show ?thesis
    by (simp add: udec_int_def dec_int_def ustr_def)
qed

lemma upy_float_ustr:
  assumes "decimal_table_ok dec" and "\<forall>c<256. dec c \<noteq> None \<longrightarrow> 48 \<le> c \<and> c \<le> 57"
  shows "upy_float dec (ustr s) = py_float s"
proof -
  define ip where "ip = takeWhile is_digit s"
  define rest where "rest = dropWhile is_digit s"
  have ipd: "list_all is_digit ip"
    by (auto simp: ip_def list_all_iff dest: set_takeWhileD)
  have tw: "takeWhile (is_udigit dec) (ustr s) = ustr ip"
    by (simp add: ustr_def takeWhile_map comp_def is_udigit_of_char [OF assms] ip_def)
  have dw: "dropWhile (is_udigit dec) (ustr s) = ustr rest"
    by (simp add: ustr_def dropWhile_map comp_def is_udigit_of_char [OF assms] rest_def)
  have all: "list_all (is_udigit dec) (ustr fp) = list_all is_digit fp" for fp
    by (simp add: ustr_def list_all_iff is_udigit_of_char [OF assms])
  have pf: "py_float s =
     (case rest of
        [] \<Rightarrow> if ip = [] then Inl ValueError else Inr (to_double (of_int (dec_int ip)))
      | c # fp \<Rightarrow>
          if c = CHR ''.'' \<and> list_all is_digit fp \<and> (ip \<noteq> [] \<or> fp \<noteq> [])
          then Inr (to_double (of_int (dec_int (ip @ fp)) / of_int (10 ^ length fp)))
          else Inl ValueError)"
    unfolding py_float_def Let_def ip_def rest_def ..
  have upf: "upy_float dec (ustr s) =
     (case ustr rest of
        [] \<Rightarrow> if ustr ip = [] then Inl ValueError
              else Inr (to_double (of_int (udec_int dec (ustr ip))))
      | c # fp \<Rightarrow>
          if c = 46 \<and> list_all (is_udigit dec) fp \<and> (ustr ip \<noteq> [] \<or> fp \<noteq> [])
          then Inr (to_double (of_int (udec_int dec (ustr ip @ fp)) / of_int (10 ^ length fp)))
          else Inl ValueError)"
    unfolding upy_float_def Let_def tw dw ..
  have v1: "udec_int dec (ustr ip) = dec_int ip"
    using ipd by (rule udec_int_ustr [OF assms(1)])
  show ?thesis
  proof (cases rest)
    case Nil
    show ?thesis
      unfolding pf upf Nil by (simp only: ustr_simps list.case v1)
  next
    case (Cons c fp)
    show ?thesis
    proof (cases "c = CHR ''.'' \<and> list_all is_digit fp \<and> (ip \<noteq> [] \<or> fp \<noteq> [])")
      case True
      then have "list_all is_digit (ip @ fp)"
        using ipd by simp
      then have v2: "udec_int dec (ustr ip @ ustr fp) = dec_int (ip @ fp)"
        using udec_int_ustr [OF assms(1), of "ip @ fp"] by (simp only: ustr_simps)
      from True have c46: "(of_char c :: nat) = 46"
        by (simp only: of_char_dot)
      have cond: "(of_char c :: nat) = 46 \<and> list_all (is_udigit dec) (ustr fp) \<and>
          (ustr ip \<noteq> [] \<or> ustr fp \<noteq> [])"
        using True c46 by (simp only: all ustr_simps simp_thms)
      show ?thesis
        unfolding pf upf Cons ustr_simps list.case
        using cond True by (simp add: v2)
    next
      case False
      then have "\<not> ((of_char c :: nat) = 46 \<and> list_all (is_udigit dec) (ustr fp) \<and>
          (ustr ip \<noteq> [] \<or> ustr fp \<noteq> []))"
        by (simp only: of_char_dot all ustr_simps simp_thms)
      with False show ?thesis
        unfolding pf upf Cons ustr_simps list.case
        by (simp only: if_False)
    qed
  qed
qed

lemma parse_price_unicode_latin1:
  assumes "decimal_table_ok dec" and "\<forall>c<256. dec c \<noteq> None \<longrightarrow> 48 \<le> c \<and> c \<le> 57"
    and "\<And>s. ftu (ustr s) = ustr (ft s)"
  shows "parse_price_unicode dec ftu (ustr cs) (map widen blk) =
         (case parse_price ft cs blk of (d, n) \<Rightarrow> (ustr d, n))"
proof (cases "blk = []")
  case True
  then show ?thesis
    by (simp add: parse_price_unicode_cases parse_price_cases)
next
  case False
  have a: "uamount_text ftu (map widen blk) = ustr (amount_text ft blk)"
    by (rule uamount_text_widen [where ftu = ftu and ft = ft, OF assms(3)])
  have u: "parse_price_unicode dec ftu (ustr cs) (map widen blk) =
      (case map_option ustr (search_number (amount_text ft blk)) of
         None \<Rightarrow> (ustr ''N/A'', None)
       | Some m \<Rightarrow> (case upy_float dec (uremove_commas m) of
                      Inl e \<Rightarrow> (ustr ''N/A'', None)
                    | Inr num \<Rightarrow> (ustr cs @ ustr (format_2f num), Some num)))"
    using False
    by (simp add: parse_price_unicode_cases a usearch_number_ustr [OF assms(1,2)])
  have n: "parse_price ft cs blk =
      (case search_number (amount_text ft blk) of
         None \<Rightarrow> (''N/A'', None)
       | Some m \<Rightarrow> (case py_float (remove_commas m) of
                      Inl e \<Rightarrow> (''N/A'', None)
                    | Inr num \<Rightarrow> (cs @ format_2f num, Some num)))"
    using False by (simp add: parse_price_cases)
  show ?thesis
  proof (cases "search_number (amount_text ft blk)")
    case None
    then show ?thesis
      unfolding u n by simp
  next
    case (Some m)
    have f: "upy_float dec (uremove_commas (ustr m)) = py_float (remove_commas m)"
      by (simp only: uremove_commas_ustr upy_float_ustr [OF assms(1,2)])
    show ?thesis
    proof (cases "py_float (remove_commas m)")
      case (Inl e)
      then show ?thesis
        unfolding u n Some by (simp add: f)
    next
      case (Inr num)
      then show ?thesis
        unfolding u n Some by (simp add: f ustr_simps(3))
    qed
  qed
qed

section \<open>The crawl: sequence numbers and the accumulated items\<close>

lemma update_fresh_key: "k \<notin> fst ` set xs \<Longrightarrow> AList.update k v xs = xs @ [(k, v)]"
  by (induction xs) auto

lemma extract_product_fields:
  assumes "map fst (items s) = map Suc [0 ..< seq s]"
  shows "seq (extract_product ft s p) = Suc (seq s)"
    and "items (extract_product ft s p) =
           items s @ [(Suc (seq s), make_record ft (currency_symbol s) p)]"
    and "currency_symbol (extract_product ft s p) = currency_symbol s"
    and "csv_file (extract_product ft s p) = csv_file s"
    and "xlsx_file (extract_product ft s p) = xlsx_file s"
proof -
  have "set (map fst (items s)) = Suc ` {0 ..< seq s}"
    using assms by simp
  then have "Suc (seq s) \<notin> fst ` set (items s)"
    by auto
  then show "items (extract_product ft s p) =
           items s @ [(Suc (seq s), make_record ft (currency_symbol s) p)]"
    by (simp add: extract_product_def Let_def update_fresh_key)
qed (simp_all add: extract_product_def Let_def)

lemma parse_loop_fields:
  assumes "map fst (items s) = map Suc [0 ..< seq s]"
  shows "seq (foldl (extract_product ft) s ps) = seq s + length ps
       \<and> map fst (items (foldl (extract_product ft) s ps)) = map Suc [0 ..< seq s + length ps]
       \<and> map snd (items (foldl (extract_product ft) s ps)) =
           map snd (items s) @ map (make_record ft (currency_symbol s)) ps
       \<and> currency_symbol (foldl (extract_product ft) s ps) = currency_symbol s
       \<and> csv_file (foldl (extract_product ft) s ps) = csv_file s
       \<and> xlsx_file (foldl (extract_product ft) s ps) = xlsx_file s"
  using assms
proof (induction ps arbitrary: s)
  case Nil
  then show ?case by simp
next
  case (Cons p ps)
  let ?t = "extract_product ft s p"
  have keys: "map fst (items ?t) = map Suc [0 ..< seq ?t]"
    using Cons.prems by (simp add: extract_product_fields)
  show ?case
    using Cons.IH [OF keys] Cons.prems
    by (simp add: extract_product_fields)
qed

lemma crawl_fields:
  assumes "map fst (items s) = map Suc [0 ..< seq s]"
  shows "seq (crawl ft s pages) = seq s + length (crawled_products pages)
       \<and> map fst (items (crawl ft s pages)) = map Suc [0 ..< seq s + length (crawled_products pages)]
       \<and> map snd (items (crawl ft s pages)) =
           map snd (items s) @ map (make_record ft (currency_symbol s)) (crawled_products pages)
       \<and> currency_symbol (crawl ft s pages) = currency_symbol s
       \<and> csv_file (crawl ft s pages) = csv_file s
       \<and> xlsx_file (crawl ft s pages) = xlsx_file s"
  using assms
proof (induction pages arbitrary: s)
  case Nil
  then show ?case by (simp add: crawled_products_def)
next
  case (Cons pg rest)
  let ?t = "foldl (extract_product ft) s (products pg)"
  note step = parse_loop_fields [OF Cons.prems, of ft "products pg"]
  show ?case
  proof (cases "next_page pg")
    case None
    with step show ?thesis
      by (simp add: parse_def crawled_products_def)
  next
    case (Some href)
    from step have keys: "map fst (items ?t) = map Suc [0 ..< seq ?t]"
      by simp
    from Cons.IH [OF keys] step Some show ?thesis
      by (simp add: parse_def crawled_products_def add.assoc)
  qed
qed

lemma init_spider_keys: "map fst (items (init_spider today)) = map Suc [0 ..< seq (init_spider today)]"
  by (simp add: init_spider_def)

lemma crawl_from_init:
  "seq (crawl ft (init_spider today) pages) = length (crawled_products pages)
   \<and> map fst (items (crawl ft (init_spider today) pages)) =
       map Suc [0 ..< length (crawled_products pages)]
   \<and> map snd (items (crawl ft (init_spider today) pages)) =
       map (make_record ft ''$'') (crawled_products pages)
   \<and> currency_symbol (crawl ft (init_spider today) pages) = ''$''"
  using crawl_fields [OF init_spider_keys, of ft today pages]
  by (simp add: init_spider_def)

lemma map_of_sequence_number:
  assumes "map fst xs = map Suc [0 ..< length xs]" and "i < length xs"
  shows "map_of xs (Suc i) = Some (snd (xs ! i))"
proof -
  have "fst (xs ! i) = map fst xs ! i"
    using assms(2) by simp
  also have "\<dots> = Suc i"
    using assms by simp
  finally have "xs ! i = (Suc i, snd (xs ! i))"
    by (simp add: prod_eq_iff)
  then have "(Suc i, snd (xs ! i)) \<in> set xs"
    using assms(2) by (metis nth_mem)
  moreover have "distinct (map fst xs)"
    unfolding assms(1) by (simp add: distinct_map)
  ultimately show ?thesis
    by (rule map_of_is_SomeI [rotated])
qed

section \<open>The deduplication loop\<close>

lemma first_at_0: "first_at ks 0"
  by (simp add: first_at_def)

lemma first_at_Cons_Suc: "first_at (k # ks) (Suc i) \<longleftrightarrow> k \<noteq> ks ! i \<and> first_at ks i"
proof
  assume a: "first_at (k # ks) (Suc i)"
  have "k \<noteq> ks ! i"
    using a [unfolded first_at_def, rule_format, of 0] by simp
  moreover have "first_at ks i"
    unfolding first_at_def
  proof (intro allI impI)
    fix j assume "j < i"
    then show "ks ! j \<noteq> ks ! i"
      using a [unfolded first_at_def, rule_format, of "Suc j"] by simp
  qed
  ultimately show "k \<noteq> ks ! i \<and> first_at ks i" ..
next
  assume a: "k \<noteq> ks ! i \<and> first_at ks i"
  show "first_at (k # ks) (Suc i)"
    unfolding first_at_def
  proof (intro allI impI)
    fix j assume "j < Suc i"
    then show "(k # ks) ! j \<noteq> (k # ks) ! Suc i"
      using a by (cases j) (auto simp: first_at_def)
  qed
qed

lemma dedup_loop_positions:
  "dedup_loop ft its seen acc =
     acc @ map (\<lambda>i. clean_item ft (its ! i))
             (filter (\<lambda>i. dedup_key ft (its ! i) \<notin> seen \<and> first_at (map (dedup_key ft) its) i)
                [0 ..< length its])"
proof (induction its arbitrary: seen acc)
  case Nil
  then show ?case by simp
next
  case (Cons it its)
  let ?k = "dedup_key ft it"
  let ?ks = "map (dedup_key ft) its"
  let ?P = "\<lambda>i. dedup_key ft ((it # its) ! i) \<notin> seen \<and> first_at (map (dedup_key ft) (it # its)) i"
  let ?Q = "\<lambda>seen' i. dedup_key ft (its ! i) \<notin> seen' \<and> first_at ?ks i"
  have shift: "[0 ..< length (it # its)] = 0 # map Suc [0 ..< length its]"
    by (simp add: upt_conv_Cons map_Suc_upt del: upt_Suc)
  have tail: "filter ?P (map Suc [0 ..< length its]) = map Suc (filter (?Q seen') [0 ..< length its])"
    if "seen' = (if ?k \<in> seen then seen else insert ?k seen)" for seen'
    unfolding filter_map
    by (rule arg_cong [where f = "map Suc"], rule filter_cong)
       (use that in \<open>auto simp: first_at_Cons_Suc\<close>)
  have positions: "filter ?P [0 ..< length (it # its)] =
      (if ?k \<in> seen then map Suc (filter (?Q seen) [0 ..< length its])
       else 0 # map Suc (filter (?Q (insert ?k seen)) [0 ..< length its]))"
    unfolding shift using tail [of seen] tail [of "insert ?k seen"]
    by (simp add: first_at_0)
  have step: "dedup_loop ft (it # its) seen acc =
      (if ?k \<in> seen then dedup_loop ft its seen acc
       else dedup_loop ft its (insert ?k seen) (acc @ [clean_item ft it]))"
    by (simp add: Let_def dedup_key_def)
  show ?case
    unfolding step positions
    by (simp add: Cons.IH comp_def)
qed

lemma dedup_loop_first_positions:
  "dedup_loop ft its {} [] =
     map (\<lambda>i. clean_item ft (its ! i)) (first_positions (map (dedup_key ft) its))"
  by (simp add: dedup_loop_positions first_positions_def)

lemma first_positions_bound: "i \<in> set (first_positions ks) \<Longrightarrow> i < length ks"
  by (simp add: first_positions_def)

lemma finalize_first_positions:
  "finalize ft its =
     filter (\<lambda>r. \<not> all_blank r)
       (map (\<lambda>i. clean_item ft (snd (its ! i))) (first_positions (map (dedup_key ft \<circ> snd) its)))"
proof -
  have eq: "map (\<lambda>i. clean_item ft (map snd its ! i)) (first_positions (map (dedup_key ft \<circ> snd) its))
      = map (\<lambda>i. clean_item ft (snd (its ! i))) (first_positions (map (dedup_key ft \<circ> snd) its))"
    by (rule map_cong) (auto dest: first_positions_bound)
  show ?thesis
    by (simp add: finalize_def dedup_loop_first_positions eq)
qed

lemma first_positions_sorted: "sorted_wrt (<) (first_positions ks)"
  unfolding first_positions_def by (rule sorted_wrt_filter) simp

lemma first_positions_inj: "inj_on (\<lambda>i. ks ! i) (set (first_positions ks))"
proof (rule inj_onI)
  fix i j
  assume i: "i \<in> set (first_positions ks)" and j: "j \<in> set (first_positions ks)"
    and eq: "ks ! i = ks ! j"
  from i j have fi: "first_at ks i" and fj: "first_at ks j"
    by (simp_all add: first_positions_def)
  show "i = j"
  proof (rule ccontr)
    assume "i \<noteq> j"
    then consider "i < j" | "j < i" by linarith
    then show False
    proof cases
      case 1
      with fj eq show False by (auto simp: first_at_def)
    next
      case 2
      with fi eq show False by (auto simp: first_at_def)
    qed
  qed
qed

lemma finalize_keys_distinct: "distinct (map row_tuple (finalize ft its))"
proof -
  let ?ks = "map (dedup_key ft \<circ> snd) its"
  have eq: "map (row_tuple \<circ> (\<lambda>i. clean_item ft (snd (its ! i)))) (first_positions ?ks)
      = map (\<lambda>i. ?ks ! i) (first_positions ?ks)"
    by (rule map_cong) (auto simp: dedup_key_def dest: first_positions_bound)
  have d: "distinct (map (\<lambda>i. ?ks ! i) (first_positions ?ks))"
    using first_positions_sorted [of ?ks] first_positions_inj [of ?ks]
    by (simp add: distinct_map strict_sorted_iff)
  have "distinct (map row_tuple (map (\<lambda>i. clean_item ft (snd (its ! i))) (first_positions ?ks)))"
    unfolding map_map eq by (rule d)
  then show ?thesis
    unfolding finalize_first_positions by (rule distinct_map_filter)
qed

section \<open>The surviving rows\<close>

lemma py_or_nonempty: "d \<noteq> [] \<Longrightarrow> py_or x d \<noteq> []"
  by (simp add: py_or_def)

lemma py_or_id: "x \<noteq> [] \<Longrightarrow> py_or x d = x"
  by (simp add: py_or_def)

lemma clean_item_nonempty:
  "row_Name (clean_item ft it) \<noteq> [] \<and> row_Price (clean_item ft it) \<noteq> [] \<and>
   row_Image (clean_item ft it) \<noteq> []"
  by (simp add: clean_item_def py_or_nonempty)

lemma csv_row_clean_item: "csv_row (clean_item ft it) = dedup_key ft it"
  using clean_item_nonempty [of ft it]
  by (simp add: csv_row_def dedup_key_def row_tuple_def py_or_id)

lemma all_blank_clean_item: "all_blank (clean_item ft it) \<longleftrightarrow> blank_triple (dedup_key ft it)"
  by (simp add: all_blank_def blank_triple_def dedup_key_def row_tuple_def)

lemma finalize_kept_positions:
  "finalize ft its = map (\<lambda>i. clean_item ft (snd (its ! i))) (kept_positions ft its)"
  by (simp add: finalize_first_positions kept_positions_def filter_map comp_def
      all_blank_clean_item)

lemma kept_positions_sorted: "sorted_wrt (<) (kept_positions ft its)"
  unfolding kept_positions_def by (rule sorted_wrt_filter) (rule first_positions_sorted)

lemma kept_positions_bound: "i \<in> set (kept_positions ft its) \<Longrightarrow> i < length its"
  by (auto simp: kept_positions_def dest: first_positions_bound)

lemma kept_positions_first:
  "i \<in> set (kept_positions ft its) \<Longrightarrow> first_at (map (dedup_key ft \<circ> snd) its) i"
  by (simp add: kept_positions_def first_positions_def)

lemma csv_rows_kept:
  "map csv_row (finalize ft its) = map (\<lambda>i. dedup_key ft (snd (its ! i))) (kept_positions ft its)"
  by (simp add: finalize_kept_positions comp_def csv_row_clean_item)

text \<open>
  C4. The rows that survive are, in order, the normalized items at the kept positions,
  each exactly as \<open>clean_item\<close> built it from that one item; an item whose key
  (Name, PriceDisplay, Image) equals the key of an earlier item is at no kept position;
  the first item with a key is at a kept position unless its triple is blank; and no two
  surviving rows have the same key.
\<close>

theorem finalize_first_occurrence_wins:
  "finalize ft its = map (\<lambda>i. clean_item ft (snd (its ! i))) (kept_positions ft its)
   \<and> (\<forall>i j. i < j \<and> j < length its \<and>
             dedup_key ft (snd (its ! i)) = dedup_key ft (snd (its ! j)) \<longrightarrow>
             j \<notin> set (kept_positions ft its))
   \<and> (\<forall>i. i < length its \<and> first_at (map (dedup_key ft \<circ> snd) its) i \<and>
           \<not> blank_triple (dedup_key ft (snd (its ! i))) \<longrightarrow>
           i \<in> set (kept_positions ft its))
   \<and> distinct (map row_tuple (finalize ft its))"
proof (intro conjI allI impI)
  show "finalize ft its = map (\<lambda>i. clean_item ft (snd (its ! i))) (kept_positions ft its)"
    by (rule finalize_kept_positions)
next
  fix i
  assume "i < length its \<and> first_at (map (dedup_key ft \<circ> snd) its) i \<and>
    \<not> blank_triple (dedup_key ft (snd (its ! i)))"
  then show "i \<in> set (kept_positions ft its)"
    by (simp add: kept_positions_def first_positions_def)
next
  fix i j
  assume a: "i < j \<and> j < length its \<and>
    dedup_key ft (snd (its ! i)) = dedup_key ft (snd (its ! j))"
  show "j \<notin> set (kept_positions ft its)"
  proof
    assume "j \<in> set (kept_positions ft its)"
    then have "first_at (map (dedup_key ft \<circ> snd) its) j"
      by (rule kept_positions_first)
    with a show False
      by (auto simp: first_at_def)
  qed
next
  show "distinct (map row_tuple (finalize ft its))"
    by (rule finalize_keys_distinct)
qed

section \<open>Reachable spider states\<close>

lemma parse_price_consistent:
  "fst (parse_price ft cs blk) =
     (case snd (parse_price ft cs blk) of None \<Rightarrow> ''N/A'' | Some n \<Rightarrow> cs @ format_2f n)"
  by (simp add: parse_price_cases split: option.splits sum.splits)

lemma make_record_consistent: "price_consistent cs (make_record ft cs p)"
proof (cases "parse_price ft cs (price_block p)")
  case (Pair d n)
  with parse_price_consistent [of ft cs "price_block p"]
  show ?thesis
    by (simp add: price_consistent_def make_record_def Let_def)
qed

lemma crawl_items_consistent:
  assumes "it \<in> snd ` set (items (crawl ft (init_spider today) pages))"
  shows "price_consistent ''$'' it"
proof -
  have "snd ` set (items (crawl ft (init_spider today) pages)) =
      set (map (make_record ft ''$'') (crawled_products pages))"
    using crawl_from_init [of ft today pages] by (metis set_map)
  with assms show ?thesis
    by (auto simp: make_record_consistent)
qed

lemma shown_row_xlsx_row:
  assumes "price_consistent cs it"
  shows "shown_row cs (xlsx_row cs (i, clean_item ft it)) = csv_row (clean_item ft it)"
proof -
  have "row_Price (clean_item ft it) =
      (case PriceNumeric it of None \<Rightarrow> ''N/A'' | Some n \<Rightarrow> cs @ format_2f n)"
    using assms format_2f_last
    by (auto simp: clean_item_def price_consistent_def py_or_def split: option.splits)
  then show ?thesis
    using clean_item_nonempty [of ft it]
    by (simp add: shown_row_def xlsx_row_def csv_row_def text_cell_def price_cell_def
        cell_text_def py_or_id clean_item_def split: option.splits)
qed

lemma finalize_rows_from_items:
  assumes "r \<in> set (finalize ft its)"
  shows "\<exists>it \<in> snd ` set its. r = clean_item ft it"
proof -
  from assms obtain i where "i \<in> set (kept_positions ft its)" and r: "r = clean_item ft (snd (its ! i))"
    by (auto simp: finalize_kept_positions)
  then have "its ! i \<in> set its"
    by (simp add: kept_positions_bound)
  with r show ?thesis by blast
qed

lemma sheet_shows_csv_rows:
  assumes "\<forall>it \<in> snd ` set its. price_consistent cs it"
  shows "map (shown_row cs) (data_rows (build_sheet cs now (finalize ft its))) =
         map csv_row (finalize ft its)"
proof -
  let ?F = "finalize ft its"
  have "shown_row cs (xlsx_row cs p) = csv_row (snd p)" if "p \<in> set (enumerate 2 ?F)" for p
  proof -
    from that have "snd p \<in> set (map snd (enumerate 2 ?F))"
      unfolding set_map by (rule imageI)
    then have "snd p \<in> set ?F"
      by (simp only: map_snd_enumerate)
    then obtain it where "it \<in> snd ` set its" and "snd p = clean_item ft it"
      using finalize_rows_from_items by blast
    with assms shown_row_xlsx_row [where cs = cs and it = it and ft = ft and i = "fst p"]
    show ?thesis
      by (metis prod.collapse)
  qed
  then have "map (shown_row cs \<circ> xlsx_row cs) (enumerate 2 ?F) =
      map (csv_row \<circ> snd) (enumerate 2 ?F)"
    by (intro map_cong) simp_all
  then show ?thesis
    by (simp add: build_sheet_def flip: map_map)
qed

section \<open>The example crawl, evaluated\<close>

lemma py_float_63: "py_float ''63.00'' = Inr (Finite 63)"
  by code_simp

lemma format_2f_63: "format_2f (Finite 63) = ''63.00''"
  by code_simp

lemma example_crawl_items:
  "items (crawl (\<lambda>t. t) (init_spider today) example_pages) = example_items"
  by (simp add: example_pages_def example_items_def example_product_def init_spider_def
      parse_def next_page_def extract_product_def make_record_def clean_text_def
      get_default_def py_or_def Let_def strip_def is_space_def parse_price_cases
      amount_text_def search_number_def in_number_class_def is_digit_def remove_commas_def
      py_float_63 format_2f_63)

lemma example_kept_positions: "kept_positions (\<lambda>t. t) example_items = [0, 1]"
  by code_simp

lemma example_finalize:
  "finalize (\<lambda>t. t) example_items =
     [\<lparr>row_Name = ''Bulbasaur'', row_Price = ''$63.00'', row_PriceNumeric = Some (Finite 63),
       row_Image = ''img1.png''\<rparr>,
      \<lparr>row_Name = ''Ivysaur'', row_Price = ''N/A'', row_PriceNumeric = None,
       row_Image = ''img2.png''\<rparr>]"
  by code_simp

lemma example_keys_equal:
  "dedup_key (\<lambda>t. t) (snd (example_items ! 0)) = dedup_key (\<lambda>t. t) (snd (example_items ! 2))"
  by code_simp

lemma example_blank: "blank_triple (dedup_key (\<lambda>t. t) (snd (example_items ! 3)))"
  by code_simp

theorem finalize_first_occurrence_wins_witness:
  "(0::nat) < 2 \<and> 2 < length example_items
   \<and> dedup_key (\<lambda>t. t) (snd (example_items ! 0)) = dedup_key (\<lambda>t. t) (snd (example_items ! 2))
   \<and> 2 \<notin> set (kept_positions (\<lambda>t. t) example_items)
   \<and> finalize (\<lambda>t. t) example_items =
       map (\<lambda>i. clean_item (\<lambda>t. t) (snd (example_items ! i))) [0, 1]"
proof -
  have len: "2 < length example_items"
    by (simp add: example_items_def)
  show ?thesis
    using len example_keys_equal example_kept_positions
      finalize_first_occurrence_wins [of "\<lambda>t. t" example_items]
    by simp
qed

section \<open>Filtering, order and the two exports\<close>

text \<open>
  C5. The surviving rows are the normalized items at the kept positions; every item at
  a kept position has a real value in its Name, PriceDisplay or Image, and an item whose
  three fields are all empty or \<open>N/A\<close> after normalization is at no kept position. So no
  data row of the delimited file is blank, and after a crawl no row of the spreadsheet
  shows three blank cells.
\<close>

theorem only_real_rows_exported:
  "finalize ft its = map (\<lambda>i. clean_item ft (snd (its ! i))) (kept_positions ft its)
   \<and> list_all (\<lambda>i. \<not> blank_triple (dedup_key ft (snd (its ! i)))) (kept_positions ft its)
   \<and> (\<forall>i. blank_triple (dedup_key ft (snd (its ! i))) \<longrightarrow> i \<notin> set (kept_positions ft its))
   \<and> list_all (\<lambda>t. \<not> blank_triple t) (map csv_row (finalize ft its))
   \<and> (let s = crawl ft (init_spider today) pages;
           ws = build_sheet (currency_symbol s) now (finalize ft (items s))
       in list_all (\<lambda>t. \<not> blank_triple t) (map (shown_row (currency_symbol s)) (data_rows ws)))"
proof (intro conjI)
  show "finalize ft its = map (\<lambda>i. clean_item ft (snd (its ! i))) (kept_positions ft its)"
    by (rule finalize_kept_positions)
  show kept: "list_all (\<lambda>i. \<not> blank_triple (dedup_key ft (snd (its ! i)))) (kept_positions ft its)"
    by (simp add: kept_positions_def list_all_iff)
  then show "\<forall>i. blank_triple (dedup_key ft (snd (its ! i))) \<longrightarrow> i \<notin> set (kept_positions ft its)"
    by (auto simp: list_all_iff)
  show csv: "list_all (\<lambda>t. \<not> blank_triple t) (map csv_row (finalize ft its))" for its
    by (simp add: csv_rows_kept kept_positions_def list_all_iff)
  let ?s = "crawl ft (init_spider today) pages"
  have cs: "currency_symbol ?s = ''$''"
    using crawl_from_init [of ft today pages] by simp
  have "map (shown_row ''$'') (data_rows (build_sheet ''$'' now (finalize ft (items ?s)))) =
      map csv_row (finalize ft (items ?s))"
    by (rule sheet_shows_csv_rows) (blast intro: crawl_items_consistent)
  with csv [of "items ?s"] cs
  show "let s = ?s; ws = build_sheet (currency_symbol s) now (finalize ft (items s))
       in list_all (\<lambda>t. \<not> blank_triple t) (map (shown_row (currency_symbol s)) (data_rows ws))"
    by (simp add: Let_def)
qed

theorem only_real_rows_exported_witness:
  "blank_triple (dedup_key (\<lambda>t. t) (snd (example_items ! 3)))
   \<and> 3 \<notin> set (kept_positions (\<lambda>t. t) example_items)
   \<and> map csv_row (finalize (\<lambda>t. t) example_items) =
       [(''Bulbasaur'', ''$63.00'', ''img1.png''), (''Ivysaur'', ''N/A'', ''img2.png'')]
   \<and> list_all (\<lambda>t. \<not> blank_triple t) (map csv_row (finalize (\<lambda>t. t) example_items))"
proof -
  have rows: "map csv_row (finalize (\<lambda>t. t) example_items) =
       [(''Bulbasaur'', ''$63.00'', ''img1.png''), (''Ivysaur'', ''N/A'', ''img2.png'')]"
    by (simp add: example_finalize csv_row_def py_or_def)
  show ?thesis
    using rows example_blank only_real_rows_exported [of "\<lambda>t. t" example_items]
    by blast
qed

text \<open>
  C6. After a crawl the items carry the sequence numbers \<open>1, 2, \<dots>, N\<close> in the order in
  which their products were met (page after page, document order within a page), and
  the surviving rows are, in output order, the normalized items of a strictly
  increasing list of sequence numbers: nothing is re-sorted.
\<close>

theorem sequence_order_preserved:
  "(let s = crawl ft (init_spider today) pages;
        ks = map Suc (kept_positions ft (items s))
    in map fst (items s) = map Suc [0 ..< length (crawled_products pages)]
     \<and> map snd (items s) = map (make_record ft ''$'') (crawled_products pages)
     \<and> sorted_wrt (<) (map fst (items s))
     \<and> sorted_wrt (<) ks
     \<and> set ks \<subseteq> set (map fst (items s))
     \<and> finalize ft (items s) = map (\<lambda>k. clean_item ft (the (map_of (items s) k))) ks)"
proof -
  let ?s = "crawl ft (init_spider today) pages"
  let ?n = "length (crawled_products pages)"
  let ?kp = "kept_positions ft (items ?s)"
  note init = crawl_from_init [of ft today pages]
  have keys: "map fst (items ?s) = map Suc [0 ..< ?n]"
    using init by simp
  have recs: "map snd (items ?s) = map (make_record ft ''$'') (crawled_products pages)"
    using init by simp
  have len: "length (items ?s) = ?n"
    using keys by (metis length_map length_upt diff_zero)
  have incr: "sorted_wrt (<) (map fst (items ?s))"
    unfolding keys by (simp add: sorted_wrt_map)
  have kept_incr: "sorted_wrt (<) (map Suc ?kp)"
    using kept_positions_sorted [of ft "items ?s"] by (simp add: sorted_wrt_map)
  have sub: "set (map Suc ?kp) \<subseteq> set (map fst (items ?s))"
    unfolding keys using kept_positions_bound [of _ ft "items ?s"] len by auto
  have look: "the (map_of (items ?s) (Suc i)) = snd (items ?s ! i)" if "i \<in> set ?kp" for i
  proof -
    from that have "i < length (items ?s)"
      by (rule kept_positions_bound)
    moreover have "map fst (items ?s) = map Suc [0 ..< length (items ?s)]"
      using keys len by simp
    ultimately show ?thesis
      by (simp add: map_of_sequence_number)
  qed
  have "map (\<lambda>i. clean_item ft (snd (items ?s ! i))) ?kp =
      map (\<lambda>i. clean_item ft (the (map_of (items ?s) (Suc i)))) ?kp"
    by (rule map_cong) (simp_all add: look)
  then have fin: "finalize ft (items ?s) =
      map (\<lambda>k. clean_item ft (the (map_of (items ?s) k))) (map Suc ?kp)"
    by (simp add: finalize_kept_positions comp_def)
  from keys recs incr kept_incr sub fin show ?thesis
    unfolding Let_def by (intro conjI)
qed

theorem sequence_order_preserved_witness:
  "map fst (items (crawl (\<lambda>t. t) (init_spider ''2026-01-01'') example_pages)) = [1, 2, 3, 4]
   \<and> map Suc (kept_positions (\<lambda>t. t) (items (crawl (\<lambda>t. t) (init_spider ''2026-01-01'') example_pages)))
       = [Suc 0, Suc (Suc 0)]
   \<and> sorted_wrt (<) [Suc 0, Suc (Suc 0)]
   \<and> finalize (\<lambda>t. t) (items (crawl (\<lambda>t. t) (init_spider ''2026-01-01'') example_pages)) =
       map (\<lambda>k. clean_item (\<lambda>t. t)
                  (the (map_of (items (crawl (\<lambda>t. t) (init_spider ''2026-01-01'') example_pages)) k)))
         [Suc 0, Suc (Suc 0)]"
proof -
  have keys: "map fst example_items = [1, 2, 3, 4]"
    by (simp add: example_items_def)
  show ?thesis
    using keys sequence_order_preserved [of "\<lambda>t. t" "''2026-01-01''" example_pages]
    by (simp add: Let_def example_crawl_items example_kept_positions)
qed

lemma init_spider_paths: "csv_file (init_spider today) \<noteq> xlsx_file (init_spider today)"
  by (simp add: init_spider_def)

lemma closed_files:
  assumes "csv_file s \<noteq> xlsx_file s"
  shows "closed ft s reason now fs (csv_file s) =
           Some (CsvBytes (utf8_sig (csv_text (finalize ft (items s)))))"
    and "closed ft s reason now fs (xlsx_file s) =
           Some (Workbook (build_sheet (currency_symbol s) now (finalize ft (items s))))"
  using assms by (simp_all add: closed_def Let_def)

lemma crawl_paths:
  "csv_file (crawl ft (init_spider today) pages) = csv_file (init_spider today)
   \<and> xlsx_file (crawl ft (init_spider today) pages) = xlsx_file (init_spider today)"
  using crawl_fields [OF init_spider_keys, of ft today pages] by simp

lemma crawl_items_independent:
  "items (crawl ft (init_spider today1) pages) = items (crawl ft (init_spider today2) pages)"
proof (rule pair_list_eqI)
  show "map fst (items (crawl ft (init_spider today1) pages)) =
      map fst (items (crawl ft (init_spider today2) pages))"
    using crawl_from_init [of ft today1 pages] crawl_from_init [of ft today2 pages] by simp
  show "map snd (items (crawl ft (init_spider today1) pages)) =
      map snd (items (crawl ft (init_spider today2) pages))"
    using crawl_from_init [of ft today1 pages] crawl_from_init [of ft today2 pages] by simp
qed

lemma sheet_values:
  "map (\<lambda>x. (cvalue (cell_name x), cvalue (cell_img x))) (data_rows (build_sheet cs now F)) =
     map (\<lambda>r. (Text (py_or (row_Name r) ''N/A''), Text (py_or (row_Image r) ''N/A''))) F"
  "map (\<lambda>x. (cvalue (cell_price x), number_format (cell_price x))) (data_rows (build_sheet cs now F)) =
     map (\<lambda>r. case row_PriceNumeric r of
                 Some n \<Rightarrow> (Number n, cs @ ''#,##0.00'')
               | None \<Rightarrow> (Text ''N/A'', ''General'')) F"
proof -
  have snd: "map snd (enumerate 2 F) = F"
    by (rule map_snd_enumerate)
  have "map (\<lambda>x. (cvalue (cell_name x), cvalue (cell_img x))) (data_rows (build_sheet cs now F)) =
      map ((\<lambda>r. (Text (py_or (row_Name r) ''N/A''), Text (py_or (row_Image r) ''N/A''))) \<circ> snd)
        (enumerate 2 F)"
    by (simp add: build_sheet_def xlsx_row_def text_cell_def comp_def split: prod.splits)
  then show "map (\<lambda>x. (cvalue (cell_name x), cvalue (cell_img x))) (data_rows (build_sheet cs now F)) =
     map (\<lambda>r. (Text (py_or (row_Name r) ''N/A''), Text (py_or (row_Image r) ''N/A''))) F"
    using snd by (simp flip: map_map)
  have "map (\<lambda>x. (cvalue (cell_price x), number_format (cell_price x)))
        (data_rows (build_sheet cs now F)) =
      map ((\<lambda>r. case row_PriceNumeric r of
                 Some n \<Rightarrow> (Number n, cs @ ''#,##0.00'')
               | None \<Rightarrow> (Text ''N/A'', ''General'')) \<circ> snd) (enumerate 2 F)"
    by (auto simp: build_sheet_def xlsx_row_def price_cell_def comp_def
        split: prod.splits option.splits)
  then show "map (\<lambda>x. (cvalue (cell_price x), number_format (cell_price x)))
        (data_rows (build_sheet cs now F)) =
     map (\<lambda>r. case row_PriceNumeric r of
                 Some n \<Rightarrow> (Number n, cs @ ''#,##0.00'')
               | None \<Rightarrow> (Text ''N/A'', ''General'')) F"
    using snd by (simp flip: map_map)
qed

lemma finalize_row_fields:
  assumes "r \<in> set (finalize ft its)"
  shows "row_Name r \<noteq> [] \<and> row_Price r \<noteq> [] \<and> row_Image r \<noteq> []"
  using finalize_rows_from_items [OF assms] clean_item_nonempty by blast













text \<open>
  C8. The bytes of the delimited file depend on the accumulated items only: two spiders
  with equal items write equal bytes, whatever their dates, timestamps, close reasons
  and earlier files; and two runs over the same page sequence write equal bytes, the
  UTF-8 of the text of the surviving rows behind a byte order mark.
\<close>

theorem csv_output_deterministic:
  "(items s1 = items s2 \<and> csv_file s1 \<noteq> xlsx_file s1 \<and> csv_file s2 \<noteq> xlsx_file s2 \<longrightarrow>
      closed ft s1 reason1 now1 fs1 (csv_file s1) = closed ft s2 reason2 now2 fs2 (csv_file s2))
   \<and> run ft today1 reason1 now1 fs1 pages (csv_file (init_spider today1)) =
     run ft today2 reason2 now2 fs2 pages (csv_file (init_spider today2))
   \<and> run ft today1 reason1 now1 fs1 pages (csv_file (init_spider today1)) =
     Some (CsvBytes (utf8_sig (csv_text (finalize ft (items (crawl ft (init_spider today1) pages))))))"
proof (intro conjI impI)
  assume "items s1 = items s2 \<and> csv_file s1 \<noteq> xlsx_file s1 \<and> csv_file s2 \<noteq> xlsx_file s2"
  then show "closed ft s1 reason1 now1 fs1 (csv_file s1) = closed ft s2 reason2 now2 fs2 (csv_file s2)"
    by (simp add: closed_files)
next
  have written: "run ft today reason now fs pages (csv_file (init_spider today)) =
      Some (CsvBytes (utf8_sig (csv_text (finalize ft (items (crawl ft (init_spider today) pages))))))"
    for today reason now fs
  proof -
    let ?s = "crawl ft (init_spider today) pages"
    have "csv_file ?s \<noteq> xlsx_file ?s" and "csv_file ?s = csv_file (init_spider today)"
      using crawl_paths [of ft today pages] init_spider_paths [of today] by simp_all
    then show ?thesis
      using closed_files(1) [of ?s ft reason now fs] by (simp add: run_def)
  qed
  show "run ft today1 reason1 now1 fs1 pages (csv_file (init_spider today1)) =
     Some (CsvBytes (utf8_sig (csv_text (finalize ft (items (crawl ft (init_spider today1) pages))))))"
    by (rule written)
  show "run ft today1 reason1 now1 fs1 pages (csv_file (init_spider today1)) =
     run ft today2 reason2 now2 fs2 pages (csv_file (init_spider today2))"
    unfolding written using crawl_items_independent [of ft today1 pages today2] by simp
qed

theorem csv_output_deterministic_witness:
  "items (crawl (\<lambda>t. t) (init_spider ''2026-01-01'') example_pages) =
     items (crawl (\<lambda>t. t) (init_spider ''2026-01-02'') example_pages)
   \<and> csv_file (crawl (\<lambda>t. t) (init_spider ''2026-01-01'') example_pages) = ''pokemon_2026-01-01.csv''
   \<and> csv_file (crawl (\<lambda>t. t) (init_spider ''2026-01-02'') example_pages) = ''pokemon_2026-01-02.csv''
   \<and> closed (\<lambda>t. t) (crawl (\<lambda>t. t) (init_spider ''2026-01-01'') example_pages)
        ''finished'' ''2026-01-01 12:00:00'' Map.empty ''pokemon_2026-01-01.csv''
     = closed (\<lambda>t. t) (crawl (\<lambda>t. t) (init_spider ''2026-01-02'') example_pages)
        ''shutdown'' ''2026-01-02 08:30:00'' Map.empty ''pokemon_2026-01-02.csv''"
proof -
  let ?s1 = "crawl (\<lambda>t. t) (init_spider ''2026-01-01'') example_pages"
  let ?s2 = "crawl (\<lambda>t. t) (init_spider ''2026-01-02'') example_pages"
  have it: "items ?s1 = items ?s2"
    by (simp add: example_crawl_items)
  have p1: "csv_file ?s1 = ''pokemon_2026-01-01.csv''" "xlsx_file ?s1 = ''pokemon_2026-01-01.xlsx''"
    using crawl_paths [of "\<lambda>t. t" "''2026-01-01''" example_pages] by (simp_all add: init_spider_def)
  have p2: "csv_file ?s2 = ''pokemon_2026-01-02.csv''" "xlsx_file ?s2 = ''pokemon_2026-01-02.xlsx''"
    using crawl_paths [of "\<lambda>t. t" "''2026-01-02''" example_pages] by (simp_all add: init_spider_def)
  show ?thesis
    using it p1 p2
      csv_output_deterministic
        [of ?s1 ?s2 "\<lambda>t. t" "''finished''" "''2026-01-01 12:00:00''" Map.empty
            "''shutdown''" "''2026-01-02 08:30:00''" Map.empty]
    by simp
qed

text \<open>
  C10. Every field of every surviving row is a non-empty string, so each \<open>or "N/A"\<close> of
  the two writers returns its operand: the delimited file holds the finalized triples,
  the Name and Image cells hold the finalized strings, and the price cell holds the
  finalized number, or the text \<open>N/A\<close> when there is none.
\<close>

theorem export_fallbacks_are_identity:
  "list_all (\<lambda>r. row_Name r \<noteq> [] \<and> row_Price r \<noteq> [] \<and> row_Image r \<noteq> []
               \<and> py_or (row_Name r) ''N/A'' = row_Name r
               \<and> py_or (row_Price r) ''N/A'' = row_Price r
               \<and> py_or (row_Image r) ''N/A'' = row_Image r) (finalize ft its)
   \<and> map csv_row (finalize ft its) = map row_tuple (finalize ft its)
   \<and> map (\<lambda>x. (cvalue (cell_name x), cvalue (cell_img x)))
       (data_rows (build_sheet cs now (finalize ft its))) =
     map (\<lambda>r. (Text (row_Name r), Text (row_Image r))) (finalize ft its)
   \<and> map (cvalue \<circ> cell_price) (data_rows (build_sheet cs now (finalize ft its))) =
     map (\<lambda>r. case row_PriceNumeric r of Some n \<Rightarrow> Number n | None \<Rightarrow> Text ''N/A'')
       (finalize ft its)"
proof (intro conjI)
  show "list_all (\<lambda>r. row_Name r \<noteq> [] \<and> row_Price r \<noteq> [] \<and> row_Image r \<noteq> []
               \<and> py_or (row_Name r) ''N/A'' = row_Name r
               \<and> py_or (row_Price r) ''N/A'' = row_Price r
               \<and> py_or (row_Image r) ''N/A'' = row_Image r) (finalize ft its)"
    unfolding list_all_iff using finalize_row_fields [of _ ft its]
    by (auto simp: py_or_id)
  show "map csv_row (finalize ft its) = map row_tuple (finalize ft its)"
    by (rule map_cong) (use finalize_row_fields [of _ ft its] in
        \<open>auto simp: csv_row_def row_tuple_def py_or_id\<close>)
  have "map (\<lambda>r. (Text (py_or (row_Name r) ''N/A''), Text (py_or (row_Image r) ''N/A'')))
        (finalize ft its) =
      map (\<lambda>r. (Text (row_Name r), Text (row_Image r))) (finalize ft its)"
    by (rule map_cong) (use finalize_row_fields [of _ ft its] in \<open>auto simp: py_or_id\<close>)
  then show "map (\<lambda>x. (cvalue (cell_name x), cvalue (cell_img x)))
       (data_rows (build_sheet cs now (finalize ft its))) =
     map (\<lambda>r. (Text (row_Name r), Text (row_Image r))) (finalize ft its)"
    by (simp only: sheet_values(1))
  have "map (cvalue \<circ> cell_price) (data_rows (build_sheet cs now (finalize ft its))) =
      map fst (map (\<lambda>x. (cvalue (cell_price x), number_format (cell_price x)))
        (data_rows (build_sheet cs now (finalize ft its))))"
    by (simp add: comp_def)
  also have "\<dots> = map (\<lambda>r. case row_PriceNumeric r of Some n \<Rightarrow> Number n | None \<Rightarrow> Text ''N/A'')
       (finalize ft its)"
    unfolding sheet_values(2) by (simp add: comp_def split: option.splits)
  finally show "map (cvalue \<circ> cell_price) (data_rows (build_sheet cs now (finalize ft its))) =
     map (\<lambda>r. case row_PriceNumeric r of Some n \<Rightarrow> Number n | None \<Rightarrow> Text ''N/A'')
       (finalize ft its)" .
qed

theorem export_fallbacks_are_identity_witness:
  "map csv_row (finalize (\<lambda>t. t) example_items) =
     [(''Bulbasaur'', ''$63.00'', ''img1.png''), (''Ivysaur'', ''N/A'', ''img2.png'')]
   \<and> map (cvalue \<circ> cell_price)
       (data_rows (build_sheet ''$'' ''2026-01-01 12:00:00'' (finalize (\<lambda>t. t) example_items))) =
     [Number (Finite 63), Text ''N/A'']"
  using export_fallbacks_are_identity [of "\<lambda>t. t" example_items "''$''" "''2026-01-01 12:00:00''"]
  by (simp add: example_finalize row_tuple_def)

section \<open>\<open>clean_text\<close>\<close>

lemma no_space_run_Cons:
  "no_space_run (x # xs) \<longleftrightarrow>
     no_space_run xs \<and> (xs \<noteq> [] \<longrightarrow> \<not> (is_space x \<and> is_space (hd xs)))"
  by (cases xs) auto

lemma no_space_run_append:
  "no_space_run (xs @ ys) \<longleftrightarrow>
     no_space_run xs \<and> no_space_run ys \<and>
     (xs \<noteq> [] \<and> ys \<noteq> [] \<longrightarrow> \<not> (is_space (last xs) \<and> is_space (hd ys)))"
proof (induction xs)
  case Nil
  then show ?case by simp
next
  case (Cons x xs)
  then show ?case
    by (cases xs) (auto simp: no_space_run_Cons)
qed

lemma no_space_run_rev: "no_space_run (rev xs) \<longleftrightarrow> no_space_run xs"
proof (induction xs)
  case Nil
  then show ?case by simp
next
  case (Cons x xs)
  then show ?case
    by (auto simp: no_space_run_append no_space_run_Cons last_rev)
qed

lemma no_space_run_dropWhile: "no_space_run xs \<Longrightarrow> no_space_run (dropWhile P xs)"
  using no_space_run_append [of "takeWhile P xs" "dropWhile P xs"] by simp

lemma collapse_ws_head:
  "xs \<noteq> [] \<Longrightarrow> \<not> is_space (hd xs) \<Longrightarrow>
   collapse_ws xs \<noteq> [] \<and> \<not> is_space (hd (collapse_ws xs))"
  by (cases xs) auto

lemma no_space_run_collapse_ws: "no_space_run (collapse_ws s)"
proof (induction s rule: collapse_ws.induct)
  case 1
  then show ?case by simp
next
  case (2 c cs)
  show ?case
  proof (cases "is_space c")
    case True
    let ?r = "dropWhile is_space cs"
    have "?r \<noteq> [] \<Longrightarrow> \<not> is_space (hd ?r)"
      by (rule hd_dropWhile)
    then have "collapse_ws ?r \<noteq> [] \<Longrightarrow> \<not> is_space (hd (collapse_ws ?r))"
      using collapse_ws_head [of ?r] by (cases ?r) auto
    with True "2.IH"(1) show ?thesis
      by (simp add: no_space_run_Cons)
  next
    case False
    with "2.IH"(2) show ?thesis
      by (simp add: no_space_run_Cons)
  qed
qed

lemma last_dropWhile_eq: "dropWhile P xs \<noteq> [] \<Longrightarrow> last (dropWhile P xs) = last xs"
  using last_appendR [of "dropWhile P xs" "takeWhile P xs"] by simp

lemma strip_ends:
  assumes "strip s \<noteq> []"
  shows "\<not> is_space (hd (strip s)) \<and> \<not> is_space (last (strip s))"
proof -
  let ?t = "dropWhile is_space s"
  let ?u = "dropWhile is_space (rev ?t)"
  from assms have u: "?u \<noteq> []"
    by (simp add: strip_def)
  have t: "?t \<noteq> []"
  proof
    assume e: "?t = []"
    have "?u = []" unfolding e by simp
    with u show False by (rule notE)
  qed
  have "\<not> is_space (hd ?u)"
    using u by (rule hd_dropWhile)
  then have "\<not> is_space (last (strip s))"
    using u by (simp add: strip_def last_rev)
  moreover have "last ?u = hd ?t"
    using u t by (simp add: last_dropWhile_eq last_rev)
  then have "\<not> is_space (hd (strip s))"
    using u t hd_dropWhile [of is_space s] by (simp add: strip_def hd_rev)
  ultimately show ?thesis by simp
qed

lemma whitespace_normal_strip_collapse: "whitespace_normal (strip (collapse_ws t))"
proof -
  have "no_space_run (strip (collapse_ws t))"
    unfolding strip_def
    by (simp add: no_space_run_rev no_space_run_dropWhile no_space_run_collapse_ws)
  then show ?thesis
    using strip_ends [of "collapse_ws t"]
    by (cases "strip (collapse_ws t)") (simp_all add: whitespace_normal_def)
qed

text \<open>
  What holds of \<open>clean_text\<close> for every repair function: a missing or empty input gives
  the empty string, the text handed to the repair is whitespace-normal, and so is the
  result whenever the repair leaves that text as it is.
\<close>

lemma clean_text_missing: "clean_text ft None = [] \<and> clean_text ft (Some []) = []"
  by (simp add: clean_text_def)

lemma clean_text_normal_if_unchanged:
  assumes "ft (strip (collapse_ws t)) = strip (collapse_ws t)"
  shows "whitespace_normal (clean_text ft (Some t))"
proof (cases "t = []")
  case True
  then show ?thesis
    by (simp add: clean_text_def whitespace_normal_def)
next
  case False
  with assms whitespace_normal_strip_collapse [of t] show ?thesis
    by (simp add: clean_text_def)
qed

text \<open>
  C3 fails on the code. \<open>clean_text\<close> collapses and trims first and repairs afterwards,
  so whitespace that the repair brings together is not normalized again: in
  \<open>a<SP><DEL><SP>b\<close> the two spaces are separated by a control character that
  \<open>fix_text\<close> deletes, and the result \<open>a<SP><SP>b\<close> has a run of two spaces.
\<close>

theorem clean_text_run_after_repair:
  "clean_text remove_control_chars (Some [CHR ''a'', CHR '' '', CHR 0x7F, CHR '' '', CHR ''b''])
     = [CHR ''a'', CHR '' '', CHR '' '', CHR ''b'']
   \<and> \<not> whitespace_normal
         (clean_text remove_control_chars (Some [CHR ''a'', CHR '' '', CHR 0x7F, CHR '' '', CHR ''b'']))"
  by (simp add: clean_text_def strip_def is_space_def remove_control_chars_def
      is_control_char_def whitespace_normal_def)

end
